theory Spec2Isabelle
  imports Complex_Main
begin

section \<open>JavaScript values\<close>

text \<open>
  The payload of a marker comment is whatever \<^verbatim>\<open>JSON.parse\<close> returns, and the scanner
  reads its properties without checking their declared TypeScript types, so the
  model keeps them as JSON values. A finite number is a rational (every finite
  double is one); a literal that overflows parses to an infinity. An array and an
  object carry their identity (a reference number), since \<^verbatim>\<open>===\<close> compares them by
  reference. A property that is absent reads as \<^verbatim>\<open>undefined\<close>, which is \<open>None\<close> of
  \<open>json option\<close>.
\<close>

datatype json =
    JNull
  | JBool bool
  | JNumber rat
  | JInfinity bool
  | JString string
  | JArray nat "json list"
  | JObject nat "(string \<times> json) list"

text \<open>Truthiness, as tested by \<^verbatim>\<open>if (x)\<close>, \<^verbatim>\<open>!x\<close>, \<^verbatim>\<open>x && y\<close> and \<^verbatim>\<open>x ? y : z\<close>.\<close>

fun truthy :: "json \<Rightarrow> bool" where
  "truthy JNull = False"
| "truthy (JBool b) = b"
| "truthy (JNumber r) = (r \<noteq> 0)"
| "truthy (JInfinity p) = True"
| "truthy (JString s) = (s \<noteq> [])"
| "truthy (JArray r xs) = True"
| "truthy (JObject r kvs) = True"

fun truthy_opt :: "json option \<Rightarrow> bool" where
  "truthy_opt None = False"
| "truthy_opt (Some v) = truthy v"

text \<open>
  Strict equality \<^verbatim>\<open>===\<close>: primitives are compared by value, arrays and objects by
  reference.
\<close>

fun strict_equals :: "json \<Rightarrow> json \<Rightarrow> bool" where
  "strict_equals JNull JNull = True"
| "strict_equals (JBool a) (JBool b) = (a = b)"
| "strict_equals (JNumber a) (JNumber b) = (a = b)"
| "strict_equals (JInfinity a) (JInfinity b) = (a = b)"
| "strict_equals (JString a) (JString b) = (a = b)"
| "strict_equals (JArray r xs) (JArray s ys) = (r = s)"
| "strict_equals (JObject r kvs) (JObject s kws) = (r = s)"
| "strict_equals a b = False"

text \<open>\<^verbatim>\<open>Number.isInteger\<close>: true of finite numbers without a fractional part only.\<close>

fun Number_isInteger :: "json \<Rightarrow> bool" where
  "Number_isInteger (JNumber r) = (of_int \<lfloor>r\<rfloor> = r)"
| "Number_isInteger v = False"

fun integer_value :: "json \<Rightarrow> int" where
  "integer_value (JNumber r) = \<lfloor>r\<rfloor>"
| "integer_value v = 0"

text \<open>
  The own properties of a parsed object, in the order of the JSON text. Reading a
  property takes the last member of that name; \<^verbatim>\<open>Object.keys\<close> lists each name once.
\<close>

type_synonym payload = "(string \<times> json) list"

definition get_prop :: "payload \<Rightarrow> string \<Rightarrow> json option" where
  "get_prop p k = map_of (rev p) k"

definition Object_keys :: "payload \<Rightarrow> string list" where
  "Object_keys p = remdups (map fst p)"

section \<open>Errors\<close>

datatype ComponentType = server | webassembly

datatype error =
    SyntaxError
  | InvalidComponentType "json option"
  | RootComponentOnDocument
  | EndCommentNotFound
  | DescriptorUndefined
  | SequenceUndefined
  | SequenceNotInteger
  | AssemblyUndefined
  | TypeNameUndefined
  | InvalidEndComment
  | EndCommentWithoutPrerenderId
  | EndCommentIdMismatch json json
  | InvalidCharacterError
  | TypeError
  | MalformedComponentComment string
  | DifferingTypes ComponentType ComponentType
  | DifferentComponentTypes json json
  | DifferentAssemblies json json
  | CircuitAlreadyInitialized string
  | BlazorAlreadyStarted

section \<open>DOM nodes\<close>

text \<open>
  The DOM is a tree. \<open>Element\<close> stands for every container that is not a document
  (elements, fragments); a comment and a text node carry their character data. A
  \<^verbatim>\<open>Comment\<close> reference held by a descriptor is the comment node itself.
\<close>

datatype node =
    Comment string
  | Text string
  | Element "node list"
  | Document "node list"

fun is_comment :: "node \<Rightarrow> bool" where
  "is_comment (Comment t) = True"
| "is_comment n = False"

fun is_document :: "node \<Rightarrow> bool" where
  "is_document (Document ns) = True"
| "is_document n = False"

fun childNodes_of :: "node \<Rightarrow> node list" where
  "childNodes_of (Element ns) = ns"
| "childNodes_of (Document ns) = ns"
| "childNodes_of n = []"

definition hasChildNodes :: "node \<Rightarrow> bool" where
  "hasChildNodes n = (childNodes_of n \<noteq> [])"

text \<open>\<^verbatim>\<open>textContent\<close> is only read on comment nodes, where it is the comment's data.\<close>

fun comment_text :: "node \<Rightarrow> string" where
  "comment_text (Comment t) = t"
| "comment_text n = []"

section \<open>Component descriptors\<close>

text \<open>
  The field \<^verbatim>\<open>type\<close> of a descriptor class has a one-value literal type
  (\<^verbatim>\<open>'server'\<close>, \<^verbatim>\<open>'webassembly'\<close>), so it is the tag of the union below
  rather than a record field.
\<close>

record ServerComponentDescriptor =
  start_sd :: node
  end_sd :: "node option"
  sequence_sd :: int
  descriptor_sd :: json

record WebAssemblyComponentDescriptor =
  typeName_wd :: json
  assembly_wd :: json
  parameterDefinitions_wd :: "json option"
  parameterValues_wd :: "json option"
  id_wd :: int
  start_wd :: node
  end_wd :: "node option"

datatype ComponentDescriptor =
    Server ServerComponentDescriptor
  | WebAssembly WebAssemblyComponentDescriptor

fun type_of :: "ComponentDescriptor \<Rightarrow> ComponentType" where
  "type_of (Server d) = server"
| "type_of (WebAssembly d) = webassembly"

text \<open>
  A method that assigns to \<^verbatim>\<open>this\<close> returns its outcome together with the object
  after the call, so that what a throwing call leaves behind is part of the model.
\<close>

definition new_ServerComponentDescriptor ::
  "node \<Rightarrow> node option \<Rightarrow> int \<Rightarrow> json \<Rightarrow> ServerComponentDescriptor" where
  "new_ServerComponentDescriptor start end' sequence descriptor =
     \<lparr>start_sd = start, end_sd = end', sequence_sd = sequence, descriptor_sd = descriptor\<rparr>"

text \<open>
  \<^verbatim>\<open>ServerComponentDescriptor.merge\<close>. Past the type check \<^verbatim>\<open>other\<close> is a server
  descriptor, whose \<^verbatim>\<open>end\<close>, \<^verbatim>\<open>sequence\<close> and \<^verbatim>\<open>descriptor\<close> are copied.
\<close>

definition merge_sd ::
  "ServerComponentDescriptor \<Rightarrow> ComponentDescriptor \<Rightarrow> (error + unit) \<times> ServerComponentDescriptor" where
  "merge_sd this other =
     (case other of
        WebAssembly w \<Rightarrow> (Inl (DifferingTypes server (type_of other)), this)
      | Server s \<Rightarrow>
          (Inr (), this\<lparr>end_sd := end_sd s, sequence_sd := sequence_sd s,
                         descriptor_sd := descriptor_sd s\<rparr>))"

text \<open>
  The constructor of \<^verbatim>\<open>WebAssemblyComponentDescriptor\<close> takes the next value of the
  static counter \<^verbatim>\<open>globalId\<close> (passed in and returned here) and does not assign
  \<^verbatim>\<open>end\<close>: the assignment is commented out in the source, so the field stays
  \<^verbatim>\<open>undefined\<close>.
\<close>

definition new_WebAssemblyComponentDescriptor ::
  "int \<Rightarrow> node \<Rightarrow> node option \<Rightarrow> json \<Rightarrow> json \<Rightarrow> json option \<Rightarrow> json option
     \<Rightarrow> WebAssemblyComponentDescriptor \<times> int" where
  "new_WebAssemblyComponentDescriptor globalId start end' assembly typeName
       parameterDefinitions parameterValues =
     (\<lparr>typeName_wd = typeName, assembly_wd = assembly,
       parameterDefinitions_wd = parameterDefinitions, parameterValues_wd = parameterValues,
       id_wd = globalId, start_wd = start, end_wd = None\<rparr>, globalId + 1)"

text \<open>
  \<^verbatim>\<open>WebAssemblyComponentDescriptor.merge\<close>: three checks, then the two parameter
  fields and \<^verbatim>\<open>id\<close> are copied. The copy of \<^verbatim>\<open>end\<close> is commented out in the source.
\<close>

definition merge_wd ::
  "WebAssemblyComponentDescriptor \<Rightarrow> ComponentDescriptor
     \<Rightarrow> (error + unit) \<times> WebAssemblyComponentDescriptor" where
  "merge_wd this other =
     (case other of
        Server s \<Rightarrow> (Inl (DifferingTypes webassembly (type_of other)), this)
      | WebAssembly w \<Rightarrow>
          if \<not> strict_equals (typeName_wd this) (typeName_wd w)
          then (Inl (DifferentComponentTypes (typeName_wd this) (typeName_wd w)), this)
          else if \<not> strict_equals (assembly_wd this) (assembly_wd w)
          then (Inl (DifferentAssemblies (assembly_wd this) (assembly_wd w)), this)
          else (Inr (), this\<lparr>parameterDefinitions_wd := parameterDefinitions_wd w,
                               parameterValues_wd := parameterValues_wd w,
                               id_wd := id_wd w\<rparr>))"

text \<open>\<^verbatim>\<open>merge(existing, incoming)\<close> on the union: the method of the existing descriptor.\<close>

fun merge :: "ComponentDescriptor \<Rightarrow> ComponentDescriptor \<Rightarrow> (error + unit) \<times> ComponentDescriptor" where
  "merge (Server this) other = (case merge_sd this other of (r, this') \<Rightarrow> (r, Server this'))"
| "merge (WebAssembly this) other = (case merge_wd this other of (r, this') \<Rightarrow> (r, WebAssembly this'))"

section \<open>Marker scanner\<close>

text \<open>
  Two functions of the platform are parameters of the model. \<^verbatim>\<open>JSON.parse\<close> is only
  ever applied to the descriptor group of the marker pattern, which starts with an
  opening brace when it is not empty, so a parse that does not throw yields an
  object: \<open>JSON_parse\<close> gives its properties, and \<open>None\<close> when \<^verbatim>\<open>JSON.parse\<close> throws.
  \<open>atob\<close> gives the decoded text, and \<open>None\<close> when \<^verbatim>\<open>atob\<close> throws.
\<close>

record builtins =
  JSON_parse :: "string \<Rightarrow> payload option"
  atob :: "json \<Rightarrow> string option"

text \<open>
  The two regular expressions. A character of a \<open>string\<close> is read as the code unit of
  that number (below 256). \<^verbatim>\<open>\s\<close> matches the white space and line terminator
  characters, \<^verbatim>\<open>.\<close> every character but a line terminator, and \<^verbatim>\<open>$\<close> (no flag) only
  the end of the text.

  \<^verbatim>\<open>/^\s*Blazor:[^{]*(?<descriptor>.*)$/\<close>: after the white space and the prefix,
  \<^verbatim>\<open>[^{]*\<close> runs up to the first opening brace (or to the end); the group is the rest,
  and must hold no line terminator, since giving characters back only makes the
  group longer. \<open>blazorCommentRegularExpression_exec\<close> returns the group of a match.
\<close>

definition is_white_space :: "char \<Rightarrow> bool" where
  "is_white_space c = ((of_char c :: nat) \<in> {9, 10, 11, 12, 13, 32, 160})"

definition is_line_terminator :: "char \<Rightarrow> bool" where
  "is_line_terminator c = ((of_char c :: nat) \<in> {10, 13})"

definition strip_prefix :: "string \<Rightarrow> string \<Rightarrow> string option" where
  "strip_prefix p s = (if take (length p) s = p then Some (drop (length p) s) else None)"

definition blazorCommentRegularExpression_exec :: "string \<Rightarrow> string option" where
  "blazorCommentRegularExpression_exec text =
     (case strip_prefix ''Blazor:'' (dropWhile is_white_space text) of
        None \<Rightarrow> None
      | Some rest \<Rightarrow>
          let descriptor = dropWhile (\<lambda>c. c \<noteq> CHR ''{'') rest
          in if list_ex is_line_terminator descriptor then None else Some descriptor)"

text \<open>
  \<^verbatim>\<open>ComponentCommentIterator\<close>, a cursor over a node list that the scanner and the
  search for an end comment share. \<open>item\<close> is the indexed read of the list
  (\<^verbatim>\<open>undefined\<close> out of range) and \<open>iterator_next\<close> the method \<^verbatim>\<open>next\<close>, which returns its
  result and the iterator after the call.
\<close>

record ComponentCommentIterator =
  childNodes :: "node list"
  currentIndex :: int
  length_it :: nat
  currentElement :: "node option"

definition new_ComponentCommentIterator :: "node list \<Rightarrow> ComponentCommentIterator" where
  "new_ComponentCommentIterator nodes =
     \<lparr>childNodes = nodes, currentIndex = - 1, length_it = length nodes, currentElement = None\<rparr>"

definition item :: "node list \<Rightarrow> int \<Rightarrow> node option" where
  "item nodes i = (if 0 \<le> i \<and> nat i < length nodes then Some (nodes ! nat i) else None)"

definition iterator_next :: "ComponentCommentIterator \<Rightarrow> bool \<times> ComponentCommentIterator" where
  "iterator_next it =
     (let i = currentIndex it + 1
      in if i < int (length_it it)
         then (True, it\<lparr>currentIndex := i, currentElement := item (childNodes it) i\<rparr>)
         else (False, it\<lparr>currentIndex := i, currentElement := None\<rparr>))"

definition validateEndComponentPayload :: "builtins \<Rightarrow> string \<Rightarrow> json \<Rightarrow> error + unit" where
  "validateEndComponentPayload B json prerenderedId =
     (case JSON_parse B json of
        None \<Rightarrow> Inl SyntaxError
      | Some payload \<Rightarrow>
          if length (Object_keys payload) \<noteq> 1 then Inl InvalidEndComment
          else (case get_prop payload ''prerenderId'' of
                  None \<Rightarrow> Inl EndCommentWithoutPrerenderId
                | Some prerenderedEndId \<Rightarrow>
                    if \<not> truthy prerenderedEndId then Inl EndCommentWithoutPrerenderId
                    else if \<not> strict_equals prerenderedEndId prerenderedId
                    then Inl (EndCommentIdMismatch prerenderedId prerenderedEndId)
                    else Inr ()))"

text \<open>
  \<^verbatim>\<open>getComponentEndComment\<close>: the \<^verbatim>\<open>while\<close> loop as a recursion on the iterator; each
  \<^verbatim>\<open>continue\<close> is a recursive call.
\<close>

function getComponentEndComment ::
  "builtins \<Rightarrow> json \<Rightarrow> ComponentCommentIterator \<Rightarrow> error + (node option \<times> ComponentCommentIterator)" where
  "getComponentEndComment B prerenderedId iterator =
     (case iterator_next iterator of
        (has_next, it) \<Rightarrow>
          if \<not> has_next then Inr (None, it)
          else (case currentElement it of
                  None \<Rightarrow> Inr (None, it)
                | Some node \<Rightarrow>
                    if \<not> is_comment node then getComponentEndComment B prerenderedId it
                    else if comment_text node = [] then getComponentEndComment B prerenderedId it
                    else (case blazorCommentRegularExpression_exec (comment_text node) of
                            None \<Rightarrow> getComponentEndComment B prerenderedId it
                          | Some json \<Rightarrow>
                              if json = [] then getComponentEndComment B prerenderedId it
                              else (case validateEndComponentPayload B json prerenderedId of
                                      Inl e \<Rightarrow> Inl e
                                    | Inr u \<Rightarrow> Inr (Some node, it)))))"
  by pat_completeness auto
termination
  by (relation "measure (\<lambda>(B, p, it). nat (int (length_it it) - currentIndex it))")
     (auto simp: iterator_next_def Let_def split: if_splits)

declare getComponentEndComment.simps [simp del]

text \<open>
  The parse results. A \<^verbatim>\<open>sequence\<close> that has passed \<^verbatim>\<open>Number.isInteger\<close> is held as
  an integer (the comparator of the sort subtracts two of them, and the sign of
  the difference of two integer-valued doubles is that of the integers).
\<close>

record ServerComponentComment =
  sequence_sc :: int
  descriptor_sc :: json
  start_sc :: node
  end_sc :: "node option"
  prerenderId_sc :: "json option"

record WebAssemblyComponentComment =
  typeName_wc :: json
  assembly_wc :: json
  parameterDefinitions_wc :: "json option"
  parameterValues_wc :: "json option"
  prerenderId_wc :: "json option"
  start_wc :: node
  end_wc :: "node option"

datatype ComponentComment =
    ServerComment ServerComponentComment
  | WebAssemblyComment WebAssemblyComponentComment

definition parseCommentPayload :: "builtins \<Rightarrow> string \<Rightarrow> error + payload" where
  "parseCommentPayload B json =
     (case JSON_parse B json of
        None \<Rightarrow> Inl SyntaxError
      | Some payload \<Rightarrow>
          let type = get_prop payload ''type''
          in if type \<noteq> Some (JString ''server'') \<and> type \<noteq> Some (JString ''webassembly'')
             then Inl (InvalidComponentType type)
             else Inr payload)"

definition assertNotDirectlyOnDocument :: "bool \<Rightarrow> error + unit" where
  "assertNotDirectlyOnDocument parentIsDocument =
     (if parentIsDocument then Inl RootComponentOnDocument else Inr ())"

text \<open>
  \<^verbatim>\<open>prerenderId ? getComponentEndComment(prerenderId, iterator) : undefined\<close>, with
  the iterator after the search.
\<close>

definition find_end ::
  "builtins \<Rightarrow> json option \<Rightarrow> ComponentCommentIterator
     \<Rightarrow> error + (node option \<times> ComponentCommentIterator)" where
  "find_end B prerenderId iterator =
     (case prerenderId of
        None \<Rightarrow> Inr (None, iterator)
      | Some p \<Rightarrow> if truthy p then getComponentEndComment B p iterator else Inr (None, iterator))"

definition createServerComponentComment ::
  "builtins \<Rightarrow> payload \<Rightarrow> node \<Rightarrow> ComponentCommentIterator
     \<Rightarrow> error + (ServerComponentComment option \<times> ComponentCommentIterator)" where
  "createServerComponentComment B payload start iterator =
     (let type = get_prop payload ''type'';
          descriptor = get_prop payload ''descriptor'';
          sequence = get_prop payload ''sequence'';
          prerenderId = get_prop payload ''prerenderId''
      in case find_end B prerenderId iterator of
           Inl e \<Rightarrow> Inl e
         | Inr (end', it) \<Rightarrow>
             if truthy_opt prerenderId \<and> end' = None then Inl EndCommentNotFound
             else if type \<noteq> Some (JString ''server'') then Inr (None, it)
             else (case descriptor of
                     None \<Rightarrow> Inl DescriptorUndefined
                   | Some d \<Rightarrow>
                       if \<not> truthy d then Inl DescriptorUndefined
                       else (case sequence of
                               None \<Rightarrow> Inl SequenceUndefined
                             | Some sq \<Rightarrow>
                                 if \<not> Number_isInteger sq then Inl SequenceNotInteger
                                 else Inr (Some \<lparr>sequence_sc = integer_value sq, descriptor_sc = d,
                                                  start_sc = start, end_sc = end',
                                                  prerenderId_sc = prerenderId\<rparr>, it))))"

text \<open>\<^verbatim>\<open>parameterDefinitions && atob(parameterDefinitions)\<close>.\<close>

definition decode_parameter :: "builtins \<Rightarrow> json option \<Rightarrow> error + json option" where
  "decode_parameter B v =
     (case v of
        None \<Rightarrow> Inr None
      | Some x \<Rightarrow>
          if \<not> truthy x then Inr (Some x)
          else (case atob B x of
                  None \<Rightarrow> Inl InvalidCharacterError
                | Some decoded \<Rightarrow> Inr (Some (JString decoded))))"

definition createWebAssemblyComponentComment ::
  "builtins \<Rightarrow> payload \<Rightarrow> node \<Rightarrow> ComponentCommentIterator
     \<Rightarrow> error + (WebAssemblyComponentComment option \<times> ComponentCommentIterator)" where
  "createWebAssemblyComponentComment B payload start iterator =
     (let type = get_prop payload ''type'';
          assembly = get_prop payload ''assembly'';
          typeName = get_prop payload ''typeName'';
          parameterDefinitions = get_prop payload ''parameterDefinitions'';
          parameterValues = get_prop payload ''parameterValues'';
          prerenderId = get_prop payload ''prerenderId''
      in case find_end B prerenderId iterator of
           Inl e \<Rightarrow> Inl e
         | Inr (end', it) \<Rightarrow>
             if truthy_opt prerenderId \<and> end' = None then Inl EndCommentNotFound
             else if type \<noteq> Some (JString ''webassembly'') then Inr (None, it)
             else (case assembly of
                     None \<Rightarrow> Inl AssemblyUndefined
                   | Some a \<Rightarrow>
                       if \<not> truthy a then Inl AssemblyUndefined
                       else (case typeName of
                               None \<Rightarrow> Inl TypeNameUndefined
                             | Some t \<Rightarrow>
                                 if \<not> truthy t then Inl TypeNameUndefined
                                 else (case decode_parameter B parameterDefinitions of
                                         Inl e \<Rightarrow> Inl e
                                       | Inr pd \<Rightarrow>
                                           (case decode_parameter B parameterValues of
                                              Inl e \<Rightarrow> Inl e
                                            | Inr pv \<Rightarrow>
                                                Inr (Some \<lparr>typeName_wc = t, assembly_wc = a,
                                                       parameterDefinitions_wc = pd,
                                                       parameterValues_wc = pv,
                                                       prerenderId_wc = prerenderId,
                                                       start_wc = start, end_wc = end'\<rparr>, it))))))"

text \<open>
  The \<^verbatim>\<open>switch (type)\<close> of \<^verbatim>\<open>getComponentComment\<close>, and the function itself. Whether
  the marker's parent is a document is an argument, since a tree value has no
  parent pointer: the caller knows it. Everything thrown inside the \<^verbatim>\<open>try\<close> block is
  caught and replaced by the malformed-comment error that carries the marker's
  text.
\<close>

definition create_for_type ::
  "builtins \<Rightarrow> ComponentType \<Rightarrow> payload \<Rightarrow> node \<Rightarrow> ComponentCommentIterator
     \<Rightarrow> error + (ComponentComment option \<times> ComponentCommentIterator)" where
  "create_for_type B type componentComment candidateStart commentNodeIterator =
     (case type of
        webassembly \<Rightarrow>
          (case createWebAssemblyComponentComment B componentComment candidateStart commentNodeIterator of
             Inl e \<Rightarrow> Inl e
           | Inr (c, it) \<Rightarrow> Inr (map_option WebAssemblyComment c, it))
      | server \<Rightarrow>
          (case createServerComponentComment B componentComment candidateStart commentNodeIterator of
             Inl e \<Rightarrow> Inl e
           | Inr (c, it) \<Rightarrow> Inr (map_option ServerComment c, it)))"

definition getComponentComment ::
  "builtins \<Rightarrow> bool \<Rightarrow> ComponentCommentIterator \<Rightarrow> ComponentType
     \<Rightarrow> error + (ComponentComment option \<times> ComponentCommentIterator)" where
  "getComponentComment B parentIsDocument commentNodeIterator type =
     (case currentElement commentNodeIterator of
        None \<Rightarrow> Inr (None, commentNodeIterator)
      | Some candidateStart \<Rightarrow>
          if \<not> is_comment candidateStart then Inr (None, commentNodeIterator)
          else if comment_text candidateStart = [] then Inr (None, commentNodeIterator)
          else (case blazorCommentRegularExpression_exec (comment_text candidateStart) of
                  None \<Rightarrow> Inr (None, commentNodeIterator)
                | Some json \<Rightarrow>
                    if json = [] then Inr (None, commentNodeIterator)
                    else (case assertNotDirectlyOnDocument parentIsDocument of
                            Inl e \<Rightarrow> Inl e
                          | Inr u \<Rightarrow>
                              (case (case parseCommentPayload B json of
                                       Inl e \<Rightarrow> Inl e
                                     | Inr componentComment \<Rightarrow>
                                         create_for_type B type componentComment candidateStart
                                           commentNodeIterator) of
                                 Inl e \<Rightarrow> Inl (MalformedComponentComment (comment_text candidateStart))
                               | Inr r \<Rightarrow> Inr r))))"

text \<open>An iterator only moves forward over the same list.\<close>

definition advanced :: "ComponentCommentIterator \<Rightarrow> ComponentCommentIterator \<Rightarrow> bool" where
  "advanced it it' =
     (childNodes it' = childNodes it \<and> length_it it' = length_it it
      \<and> currentIndex it \<le> currentIndex it'
      \<and> (case currentElement it' of
            None \<Rightarrow> True
          | Some n \<Rightarrow> currentElement it = Some n \<or> n \<in> set (childNodes it)))"

lemma advanced_refl: "advanced it it"
  by (simp add: advanced_def split: option.splits)

lemma item_in_set: "item nodes i = Some n \<Longrightarrow> n \<in> set nodes"
  by (auto simp: item_def split: if_splits)

lemma iterator_next_advanced:
  "iterator_next it = (b, it') \<Longrightarrow>
     childNodes it' = childNodes it \<and> length_it it' = length_it it
     \<and> currentIndex it' = currentIndex it + 1
     \<and> (b \<longleftrightarrow> currentIndex it + 1 < int (length_it it))
     \<and> (\<forall>n. currentElement it' = Some n \<longrightarrow> n \<in> set (childNodes it))"
  by (auto simp: iterator_next_def Let_def item_in_set split: if_splits)

lemma getComponentEndComment_advanced:
  "getComponentEndComment B p it = Inr (r, it') \<Longrightarrow>
     childNodes it' = childNodes it \<and> length_it it' = length_it it
     \<and> currentIndex it < currentIndex it'
     \<and> (\<forall>n. currentElement it' = Some n \<longrightarrow> n \<in> set (childNodes it))"
proof (induction B p it rule: getComponentEndComment.induct)
  case (1 B prerenderedId iterator)
  obtain b it1 where nx: "iterator_next iterator = (b, it1)"
    by (cases "iterator_next iterator")
  note adv = iterator_next_advanced [OF nx]
  note IH = "1.IH" [OF nx [symmetric]]
  from "1.prems" nx show ?case
    apply (subst (asm) getComponentEndComment.simps)
    apply (simp split: if_splits option.splits sum.splits)
    using adv IH
    apply (auto split: if_splits option.splits sum.splits)
    apply fastforce
    done
qed

lemma getComponentEndComment_advanced':
  assumes "getComponentEndComment B p it = Inr (r, it')"
  shows "advanced it it'"
  using getComponentEndComment_advanced [OF assms]
  by (simp add: advanced_def split: option.splits)

lemma find_end_advanced:
  assumes "find_end B p it = Inr (r, it')"
  shows "advanced it it'"
proof (cases p)
  case None
  with assms show ?thesis by (simp add: find_end_def advanced_refl)
next
  case (Some x)
  show ?thesis
  proof (cases "truthy x")
    case True
    with Some assms show ?thesis
      by (simp add: find_end_def getComponentEndComment_advanced')
  next
    case False
    with Some assms show ?thesis by (simp add: find_end_def advanced_refl)
  qed
qed

lemma createServerComponentComment_advanced:
  "createServerComponentComment B payload start it = Inr (c, it') \<Longrightarrow> advanced it it'"
  by (auto simp: createServerComponentComment_def Let_def
           split: sum.splits prod.splits if_splits option.splits dest: find_end_advanced)

lemma createWebAssemblyComponentComment_advanced:
  "createWebAssemblyComponentComment B payload start it = Inr (c, it') \<Longrightarrow> advanced it it'"
  by (auto simp: createWebAssemblyComponentComment_def Let_def
           split: sum.splits prod.splits if_splits option.splits dest: find_end_advanced)

lemma getComponentComment_advanced:
  "getComponentComment B d it ty = Inr (c, it') \<Longrightarrow> advanced it it'"
  by (auto simp: getComponentComment_def create_for_type_def advanced_refl
           split: sum.splits prod.splits if_splits option.splits ComponentType.splits
           dest: createServerComponentComment_advanced createWebAssemblyComponentComment_advanced)

text \<open>What the termination of the scan rests on.\<close>

lemma size_childNodes_of:
  "n \<in> set ns \<Longrightarrow> size_list size (childNodes_of n) < size_list size ns"
proof (induction ns)
  case Nil
  then show ?case by simp
next
  case (Cons a ns)
  have "size_list size (childNodes_of n) \<le> size n"
    by (cases n) simp_all
  with Cons show ?case by auto
qed

lemma resolve_step:
  assumes "iterator_next it = (True, it1)" and "getComponentComment B d it1 ty = Inr (c, it')"
  shows "childNodes it' = childNodes it" and "length_it it' = length_it it"
    and "currentIndex it < currentIndex it'" and "currentIndex it + 1 < int (length_it it)"
    and "currentElement it' = Some n \<Longrightarrow> n \<in> set (childNodes it)"
  using iterator_next_advanced [OF assms(1)] getComponentComment_advanced [OF assms(2)]
  by (auto simp: advanced_def)

text \<open>
  \<^verbatim>\<open>resolveComponentComments\<close> and its \<^verbatim>\<open>while\<close> loop. The recursion into the children
  of the current element passes no \<^verbatim>\<open>directChildrenOnly\<close>. The current element is
  read again after \<^verbatim>\<open>getComponentComment\<close>, which may have moved the iterator to an
  end comment; calling \<^verbatim>\<open>hasChildNodes\<close> on a current element that is \<^verbatim>\<open>undefined\<close>
  would be a type error.
\<close>

function resolve_loop ::
    "builtins \<Rightarrow> bool \<Rightarrow> ComponentType \<Rightarrow> bool \<Rightarrow> ComponentCommentIterator
       \<Rightarrow> ComponentComment list \<Rightarrow> error + ComponentComment list"
  and resolveComponentComments ::
    "builtins \<Rightarrow> bool \<Rightarrow> node list \<Rightarrow> ComponentType \<Rightarrow> bool \<Rightarrow> error + ComponentComment list"
where
  "resolve_loop B parentIsDocument type directChildrenOnly childNodeIterator result =
     (case iterator_next childNodeIterator of
        (has_next, it) \<Rightarrow>
          if \<not> has_next then Inr result
          else (case currentElement it of
                  None \<Rightarrow> Inr result
                | Some node \<Rightarrow>
                    (case getComponentComment B parentIsDocument it type of
                       Inl e \<Rightarrow> Inl e
                     | Inr (componentComment, it') \<Rightarrow>
                         (case componentComment of
                            Some c \<Rightarrow>
                              resolve_loop B parentIsDocument type directChildrenOnly it' (result @ [c])
                          | None \<Rightarrow>
                              if directChildrenOnly
                              then resolve_loop B parentIsDocument type directChildrenOnly it' result
                              else (case currentElement it' of
                                      None \<Rightarrow> Inl TypeError
                                    | Some current \<Rightarrow>
                                        if hasChildNodes current
                                        then (case resolveComponentComments B (is_document current)
                                                     (childNodes_of current) type False of
                                                Inl e \<Rightarrow> Inl e
                                              | Inr childResults \<Rightarrow>
                                                  resolve_loop B parentIsDocument type
                                                    directChildrenOnly it' (result @ childResults))
                                        else resolve_loop B parentIsDocument type directChildrenOnly
                                               it' result)))))"
| "resolveComponentComments B parentIsDocument nodes type directChildrenOnly =
     resolve_loop B parentIsDocument type directChildrenOnly (new_ComponentCommentIterator nodes) []"
  by pat_completeness auto

termination
proof (relation "measures
    [\<lambda>x. case x of
            Inl (B, d, ty, dir, it, res) \<Rightarrow> size_list size (childNodes it)
          | Inr (B, d, nodes, ty, dir) \<Rightarrow> size_list size nodes,
     \<lambda>x. case x of
            Inl (B, d, ty, dir, it, res) \<Rightarrow> nat (int (length_it it) - currentIndex it)
          | Inr (B, d, nodes, ty, dir) \<Rightarrow> length nodes + 2]", goal_cases)
  case 1
  show ?case by simp
next
  case (2 B d ty dir it res x y x2 b xa ya)
  then have "iterator_next it = (True, y)" and "getComponentComment B d y ty = Inr (xa, ya)"
    by simp_all
  from resolve_step(1-4) [OF this] show ?case by simp
next
  case (3 B d ty dir it res x y x2 b xa ya x2a)
  then have "iterator_next it = (True, y)" and "getComponentComment B d y ty = Inr (xa, ya)"
    by simp_all
  from resolve_step(5) [OF this] 3 show ?case by (simp add: size_childNodes_of)
next
  case (4 B d ty dir it res x y x2 b xa ya x2a ba)
  then have "iterator_next it = (True, y)" and "getComponentComment B d y ty = Inr (xa, ya)"
    by simp_all
  from resolve_step(1-4) [OF this] show ?case by simp
next
  case (5 B d ty dir it res x y x2 b xa ya x2a)
  then have "iterator_next it = (True, y)" and "getComponentComment B d y ty = Inr (xa, ya)"
    by simp_all
  from resolve_step(1-4) [OF this] show ?case by simp
next
  case (6 B d ty dir it res x y x2 b xa ya x2a)
  then have "iterator_next it = (True, y)" and "getComponentComment B d y ty = Inr (xa, ya)"
    by simp_all
  from resolve_step(1-4) [OF this] show ?case by simp
next
  case (7 B d nodes ty dir)
  show ?case by (simp add: new_ComponentCommentIterator_def)
qed

declare resolve_loop.simps [simp del]

section \<open>Discovery\<close>

text \<open>
  \<^verbatim>\<open>Array.prototype.sort\<close> with a comparator: the language requires a stable sort,
  modelled here by insertion from the right.
\<close>

fun insert_sorted :: "('a \<Rightarrow> 'a \<Rightarrow> int) \<Rightarrow> 'a \<Rightarrow> 'a list \<Rightarrow> 'a list" where
  "insert_sorted compareFn x [] = [x]"
| "insert_sorted compareFn x (y # ys) =
     (if compareFn x y \<le> 0 then x # y # ys else y # insert_sorted compareFn x ys)"

definition Array_sort :: "('a \<Rightarrow> 'a \<Rightarrow> int) \<Rightarrow> 'a list \<Rightarrow> 'a list" where
  "Array_sort compareFn xs = foldr (insert_sorted compareFn) xs []"

text \<open>
  The casts \<^verbatim>\<open>as ServerComponentComment[]\<close> and \<^verbatim>\<open>as WebAssemblyComponentDescriptor[]\<close>.
  They drop nothing: every comment resolved for a type is of that type
  (\<open>resolve_types\<close> below).
\<close>

fun as_ServerComponentComment :: "ComponentComment \<Rightarrow> ServerComponentComment option" where
  "as_ServerComponentComment (ServerComment c) = Some c"
| "as_ServerComponentComment (WebAssemblyComment c) = None"

fun as_WebAssemblyComponentComment :: "ComponentComment \<Rightarrow> WebAssemblyComponentComment option" where
  "as_WebAssemblyComponentComment (WebAssemblyComment c) = Some c"
| "as_WebAssemblyComponentComment (ServerComment c) = None"

definition discoverServerComponents ::
  "builtins \<Rightarrow> bool \<Rightarrow> node list \<Rightarrow> bool \<Rightarrow> error + ServerComponentDescriptor list" where
  "discoverServerComponents B parentIsDocument nodes directChildrenOnly =
     (case resolveComponentComments B parentIsDocument nodes server directChildrenOnly of
        Inl e \<Rightarrow> Inl e
      | Inr resolved \<Rightarrow>
          let componentComments = List.map_filter as_ServerComponentComment resolved;
              discoveredComponents =
                map (\<lambda>componentComment.
                       new_ServerComponentDescriptor (start_sc componentComment) (end_sc componentComment)
                         (sequence_sc componentComment) (descriptor_sc componentComment))
                    componentComments
          in Inr (Array_sort (\<lambda>a b. sequence_sd a - sequence_sd b) discoveredComponents))"

text \<open>
  The \<^verbatim>\<open>for\<close> loop of \<^verbatim>\<open>discoverWebAssemblyComponents\<close>: one constructor call for each
  comment, threading the static counter.
\<close>

fun construct_entries ::
  "int \<Rightarrow> WebAssemblyComponentComment list \<Rightarrow> WebAssemblyComponentDescriptor list \<times> int" where
  "construct_entries globalId [] = ([], globalId)"
| "construct_entries globalId (componentComment # rest) =
     (case new_WebAssemblyComponentDescriptor globalId (start_wc componentComment)
             (end_wc componentComment) (assembly_wc componentComment) (typeName_wc componentComment)
             (parameterDefinitions_wc componentComment) (parameterValues_wc componentComment) of
        (entry, globalId') \<Rightarrow>
          (case construct_entries globalId' rest of
             (entries, globalId'') \<Rightarrow> (entry # entries, globalId'')))"

definition discoverWebAssemblyComponents ::
  "builtins \<Rightarrow> int \<Rightarrow> bool \<Rightarrow> node list \<Rightarrow> bool
     \<Rightarrow> error + (WebAssemblyComponentDescriptor list \<times> int)" where
  "discoverWebAssemblyComponents B globalId parentIsDocument nodes directChildrenOnly =
     (case resolveComponentComments B parentIsDocument nodes webassembly directChildrenOnly of
        Inl e \<Rightarrow> Inl e
      | Inr resolved \<Rightarrow>
          let componentComments = List.map_filter as_WebAssemblyComponentComment resolved
          in case construct_entries globalId componentComments of
               (discoveredComponents, globalId') \<Rightarrow>
                 Inr (Array_sort (\<lambda>a b. id_wd a - id_wd b) discoveredComponents, globalId'))"

definition discoverComponentsFromNodeList ::
  "builtins \<Rightarrow> int \<Rightarrow> bool \<Rightarrow> node list \<Rightarrow> ComponentType \<Rightarrow> bool
     \<Rightarrow> error + (ComponentDescriptor list \<times> int)" where
  "discoverComponentsFromNodeList B globalId parentIsDocument nodes type directChildrenOnly =
     (case type of
        webassembly \<Rightarrow>
          (case discoverWebAssemblyComponents B globalId parentIsDocument nodes directChildrenOnly of
             Inl e \<Rightarrow> Inl e
           | Inr (ds, globalId') \<Rightarrow> Inr (map WebAssembly ds, globalId'))
      | server \<Rightarrow>
          (case discoverServerComponents B parentIsDocument nodes directChildrenOnly of
             Inl e \<Rightarrow> Inl e
           | Inr ds \<Rightarrow> Inr (map Server ds, globalId)))"

definition discoverComponents ::
  "builtins \<Rightarrow> int \<Rightarrow> node \<Rightarrow> ComponentType \<Rightarrow> bool \<Rightarrow> error + (ComponentDescriptor list \<times> int)" where
  "discoverComponents B globalId root_node type directChildrenOnly =
     (if \<not> hasChildNodes root_node then Inr ([], globalId)
      else discoverComponentsFromNodeList B globalId (is_document root_node) (childNodes_of root_node)
             type directChildrenOnly)"

section \<open>Persisted state\<close>

text \<open>
  \<^verbatim>\<open>discoverPersistedState\<close> returns a string, \<^verbatim>\<open>null\<close> or \<^verbatim>\<open>undefined\<close>. The model also
  returns what the call leaves of the subtree: \<open>None\<close> when the node itself is the
  comment that was removed from its parent. \<^verbatim>\<open>node.parentNode?.removeChild(node)\<close>
  removes nothing from a node without a parent, so whether the node given to the
  function has one is an argument (\<open>hasParent\<close>); the candidates of the loop are
  children of the node and have one.

  \<^verbatim>\<open>/^\s*Blazor-Component-State:(?<state>[a-zA-Z0-9+/=]+)$/\<close>:
  \<open>blazorStateCommentRegularExpression_exec\<close> returns the group \<open>state\<close> of a match.
\<close>

datatype 'a nullable = Value 'a | Null | Undefined

fun truthy_result :: "string nullable \<Rightarrow> bool" where
  "truthy_result (Value v) = (v \<noteq> [])"
| "truthy_result n = False"

definition is_base64_char :: "char \<Rightarrow> bool" where
  "is_base64_char c =
     (let k = (of_char c :: nat)
      in (97 \<le> k \<and> k \<le> 122) \<or> (65 \<le> k \<and> k \<le> 90) \<or> (48 \<le> k \<and> k \<le> 57)
         \<or> k = 43 \<or> k = 47 \<or> k = 61)"

definition blazorStateCommentRegularExpression_exec :: "string \<Rightarrow> string option" where
  "blazorStateCommentRegularExpression_exec content =
     (case strip_prefix ''Blazor-Component-State:'' (dropWhile is_white_space content) of
        None \<Rightarrow> None
      | Some captured \<Rightarrow>
          if captured \<noteq> [] \<and> list_all is_base64_char captured then Some captured else None)"

fun put_back :: "node option \<Rightarrow> node list \<Rightarrow> node list" where
  "put_back None ns = ns"
| "put_back (Some n) ns = n # ns"

fun discoverPersistedState :: "bool \<Rightarrow> node \<Rightarrow> string nullable \<times> node option"
  and discoverPersistedState_loop :: "node list \<Rightarrow> string nullable \<times> node list" where
  "discoverPersistedState hasParent (Comment content) =
     (case blazorStateCommentRegularExpression_exec content of
        None \<Rightarrow> (Null, Some (Comment content))
      | Some v \<Rightarrow>
          if v \<noteq> [] then (Value v, if hasParent then None else Some (Comment content))
          else (Value v, Some (Comment content)))"
| "discoverPersistedState hasParent (Text t) = (Undefined, Some (Text t))"
| "discoverPersistedState hasParent (Element nodes) =
     (if nodes = [] then (Undefined, Some (Element nodes))
      else case discoverPersistedState_loop nodes of (r, nodes') \<Rightarrow> (r, Some (Element nodes')))"
| "discoverPersistedState hasParent (Document nodes) =
     (if nodes = [] then (Undefined, Some (Document nodes))
      else case discoverPersistedState_loop nodes of (r, nodes') \<Rightarrow> (r, Some (Document nodes')))"
| "discoverPersistedState_loop [] = (Undefined, [])"
| "discoverPersistedState_loop (candidate # rest) =
     (case discoverPersistedState True candidate of
        (result, candidate') \<Rightarrow>
          if truthy_result result then (result, put_back candidate' rest)
          else case discoverPersistedState_loop rest of
                 (r, rest') \<Rightarrow> (r, put_back candidate' rest'))"

section \<open>Circuit descriptor\<close>

typedecl RootComponentManager

record CircuitDescriptor =
  circuitId :: "string option"
  components :: "ServerComponentDescriptor list"
  rootComponentManager :: "RootComponentManager option"
  applicationState :: string

text \<open>\<^verbatim>\<open>if (this.circuitId)\<close>: an id that is \<^verbatim>\<open>undefined\<close> or the empty string is falsy.\<close>

fun truthy_string :: "string option \<Rightarrow> bool" where
  "truthy_string None = False"
| "truthy_string (Some s) = (s \<noteq> [])"

datatype components_arg =
    ComponentList "ServerComponentDescriptor list"
  | Manager RootComponentManager

definition new_CircuitDescriptor :: "components_arg \<Rightarrow> string \<Rightarrow> CircuitDescriptor" where
  "new_CircuitDescriptor comps appState =
     (case comps of
        Manager m \<Rightarrow> \<lparr>circuitId = None, components = [], rootComponentManager = Some m,
                      applicationState = appState\<rparr>
      | ComponentList cs \<Rightarrow> \<lparr>circuitId = None, components = cs, rootComponentManager = None,
                             applicationState = appState\<rparr>)"

definition initialize :: "string \<Rightarrow> CircuitDescriptor \<Rightarrow> (error + unit) \<times> CircuitDescriptor" where
  "initialize cid this =
     (if truthy_string (circuitId this)
      then (Inl (CircuitAlreadyInitialized (the (circuitId this))), this)
      else (Inr (), this\<lparr>circuitId := Some cid\<rparr>))"

text \<open>
  Modelled from the spec: the transport (\<^verbatim>\<open>HubConnection\<close> of the SignalR library,
  not among the sources), with the two members the code uses: a connection has a
  state and answers a remote call (a rejected call is \<open>Inl\<close>, an answer without a
  value is \<open>None\<close>). The calls made on it are recorded in \<open>invocations\<close>.
\<close>

datatype HubConnectionState = Disconnected | Connecting | Connected | Disconnecting | Reconnecting

record HubConnection =
  state :: HubConnectionState
  invoke :: "string \<Rightarrow> string list \<Rightarrow> error + string option"
  invocations :: "(string \<times> string list) list"

text \<open>
  What \<^verbatim>\<open>startCircuit\<close> reads from other modules: the navigation manager's base URI
  and location, and the JSON text of the descriptors' markers.
\<close>

record circuit_env =
  getBaseURI :: string
  getLocationHref :: string
  stringify_markers :: "ServerComponentDescriptor list \<Rightarrow> string"

text \<open>
  \<^verbatim>\<open>startCircuit\<close> is asynchronous; the model runs the remote call to its answer in
  one step. The early return on a connection that is not connected happens before
  any suspension.
\<close>

definition startCircuit ::
  "circuit_env \<Rightarrow> HubConnection \<Rightarrow> CircuitDescriptor
     \<Rightarrow> (error + bool) \<times> CircuitDescriptor \<times> HubConnection" where
  "startCircuit env connection this =
     (if state connection \<noteq> Connected then (Inr False, this, connection)
      else
        let componentsJson = stringify_markers env (components this);
            args = [getBaseURI env, getLocationHref env, componentsJson,
                    (if applicationState this \<noteq> [] then applicationState this else [])];
            connection' = connection\<lparr>invocations := invocations connection @ [(''StartCircuit'', args)]\<rparr>
        in case invoke connection ''StartCircuit'' args of
             Inl e \<Rightarrow> (Inl e, this, connection')
           | Inr result \<Rightarrow>
               if truthy_string result
               then (case initialize (the result) this of
                       (Inl e, this') \<Rightarrow> (Inl e, this', connection')
                     | (Inr u, this') \<Rightarrow> (Inr True, this', connection'))
               else (Inr False, this, connection'))"

section \<open>Boot orchestrator\<close>

text \<open>
  The module-level variables of the boot module, and the calls it has made to its
  collaborators (the root component manager, the listeners, the two runtimes) in
  the order they were made. The collaborators call back into the module through
  \<^verbatim>\<open>registerComponentDescriptor\<close>, the auto mode resolver and the navigation
  callbacks; an asynchronous function runs up to its \<^verbatim>\<open>await\<close>, and the rest of its
  body runs as a later step.
\<close>

text \<open>
  \<^verbatim>\<open>WebStartOptions\<close> is declared in a module that is not among the sources; the
  model has the members that \<^verbatim>\<open>boot\<close> and the start functions read.
\<close>

typedecl CircuitStartOptions
typedecl WebAssemblyStartOptions

record SsrStartOptions =
  disableDomPreservation :: "bool option"

record WebStartOptions =
  circuit :: "CircuitStartOptions option"
  webAssembly :: "WebAssemblyStartOptions option"
  ssr :: "SsrStartOptions option"

datatype DescriptorType = TypeAuto | TypeServer | TypeWebAssembly

datatype external_call =
    AttachComponentDescriptorHandler
  | AttachStreamingRenderingListener "SsrStartOptions option"
  | AttachAutoModeResolver
  | AttachProgressivelyEnhancedNavigationListener
  | RegisterAllComponentDescriptors
  | ManagerRegisterComponentDescriptor DescriptorType
  | HandleUpdatedRootComponents bool
  | StartCircuit "CircuitStartOptions option"
  | LoadWebAssemblyPlatform "WebAssemblyStartOptions option"
  | StartWebAssembly "WebAssemblyStartOptions option"

record boot_state =
  started :: bool
  isPerformingEnhancedNavigation :: bool
  webStartOptions :: "WebStartOptions option"
  hasWebAssemblyLoaded :: bool
  hasCircuitStarted :: bool
  hasStartedLoadingWebAssembly :: bool
  isStartingWebAssembly :: bool
  calls :: "external_call list"

definition initial_boot_state :: boot_state where
  "initial_boot_state =
     \<lparr>started = False, isPerformingEnhancedNavigation = False, webStartOptions = None,
      hasWebAssemblyLoaded = False, hasCircuitStarted = False,
      hasStartedLoadingWebAssembly = False, isStartingWebAssembly = False, calls = []\<rparr>"

definition call :: "external_call \<Rightarrow> boot_state \<Rightarrow> boot_state" where
  "call c s = s\<lparr>calls := calls s @ [c]\<rparr>"

text \<open>\<^verbatim>\<open>options?.ssr\<close>, \<^verbatim>\<open>webStartOptions?.circuit\<close> and the like.\<close>

definition ssr_of :: "WebStartOptions option \<Rightarrow> SsrStartOptions option" where
  "ssr_of opts = (case opts of None \<Rightarrow> None | Some w \<Rightarrow> ssr w)"

definition circuit_of :: "WebStartOptions option \<Rightarrow> CircuitStartOptions option" where
  "circuit_of opts = (case opts of None \<Rightarrow> None | Some w \<Rightarrow> circuit w)"

definition webAssembly_of :: "WebStartOptions option \<Rightarrow> WebAssemblyStartOptions option" where
  "webAssembly_of opts = (case opts of None \<Rightarrow> None | Some w \<Rightarrow> webAssembly w)"

definition disableDomPreservation_of :: "WebStartOptions option \<Rightarrow> bool" where
  "disableDomPreservation_of opts =
     (case ssr_of opts of None \<Rightarrow> False
      | Some r \<Rightarrow> (case disableDomPreservation r of None \<Rightarrow> False | Some b \<Rightarrow> b))"

definition handleUpdatedDescriptors :: "boot_state \<Rightarrow> boot_state" where
  "handleUpdatedDescriptors s =
     (let shouldAddNewRootComponents = \<not> isPerformingEnhancedNavigation s
      in call (HandleUpdatedRootComponents shouldAddNewRootComponents) s)"

text \<open>
  The three start functions up to their \<^verbatim>\<open>await\<close>: the guard is tested and set, and
  the collaborator's function is called. The part after the \<^verbatim>\<open>await\<close> is the
  function named \<open>_resumed\<close>.
\<close>

definition startCircuitIfNotStarted :: "boot_state \<Rightarrow> boot_state" where
  "startCircuitIfNotStarted s =
     (if hasCircuitStarted s then s
      else call (StartCircuit (circuit_of (webStartOptions s))) (s\<lparr>hasCircuitStarted := True\<rparr>))"

definition startCircuitIfNotStarted_resumed :: "boot_state \<Rightarrow> boot_state" where
  "startCircuitIfNotStarted_resumed s = handleUpdatedDescriptors s"

definition startLoadingWebAssembly :: "boot_state \<Rightarrow> boot_state" where
  "startLoadingWebAssembly s =
     (if hasStartedLoadingWebAssembly s then s
      else call (LoadWebAssemblyPlatform (webAssembly_of (webStartOptions s)))
             (s\<lparr>hasStartedLoadingWebAssembly := True\<rparr>))"

definition startLoadingWebAssembly_resumed :: "boot_state \<Rightarrow> boot_state" where
  "startLoadingWebAssembly_resumed s = s\<lparr>hasWebAssemblyLoaded := True\<rparr>"

definition startWebAssemblyIfNotStarted :: "boot_state \<Rightarrow> boot_state" where
  "startWebAssemblyIfNotStarted s =
     (if isStartingWebAssembly s then s
      else call (StartWebAssembly (webAssembly_of (webStartOptions s)))
             (s\<lparr>isStartingWebAssembly := True\<rparr>))"

definition startWebAssemblyIfNotStarted_resumed :: "boot_state \<Rightarrow> boot_state" where
  "startWebAssemblyIfNotStarted_resumed s = handleUpdatedDescriptors (s\<lparr>hasWebAssemblyLoaded := True\<rparr>)"

definition registerComponentDescriptor :: "DescriptorType \<Rightarrow> boot_state \<Rightarrow> boot_state" where
  "registerComponentDescriptor ty s =
     (let s1 = call (ManagerRegisterComponentDescriptor ty) s
      in case ty of
           TypeAuto \<Rightarrow> startLoadingWebAssembly s1
         | TypeServer \<Rightarrow> startCircuitIfNotStarted s1
         | TypeWebAssembly \<Rightarrow> startWebAssemblyIfNotStarted s1)"

text \<open>The resolver that \<^verbatim>\<open>boot\<close> attaches; it returns the chosen mode.\<close>

definition autoModeResolver :: "boot_state \<Rightarrow> DescriptorType \<times> boot_state" where
  "autoModeResolver s =
     (if hasWebAssemblyLoaded s then (TypeWebAssembly, startWebAssemblyIfNotStarted s)
      else (TypeServer, startCircuitIfNotStarted s))"

definition beforeEnhancedNavigation :: "boot_state \<Rightarrow> boot_state" where
  "beforeEnhancedNavigation s = s\<lparr>isPerformingEnhancedNavigation := True\<rparr>"

definition afterDocumentUpdated :: "boot_state \<Rightarrow> boot_state" where
  "afterDocumentUpdated s = handleUpdatedDescriptors s"

definition afterEnhancedNavigation :: "boot_state \<Rightarrow> boot_state" where
  "afterEnhancedNavigation s = handleUpdatedDescriptors (s\<lparr>isPerformingEnhancedNavigation := False\<rparr>)"

definition boot :: "WebStartOptions option \<Rightarrow> boot_state \<Rightarrow> (error + unit) \<times> boot_state" where
  "boot options s =
     (if started s then (Inl BlazorAlreadyStarted, s)
      else
        let s1 = s\<lparr>started := True, webStartOptions := options\<rparr>;
            s2 = call AttachComponentDescriptorHandler s1;
            s3 = call (AttachStreamingRenderingListener (ssr_of options)) s2;
            s4 = call AttachAutoModeResolver s3;
            s5 = (if \<not> disableDomPreservation_of options
                  then call AttachProgressivelyEnhancedNavigationListener s4 else s4);
            s6 = call RegisterAllComponentDescriptors s5
        in (Inr (), s6))"

text \<open>
  Everything that can enter the module: a call of \<^verbatim>\<open>boot\<close>, a callback from a
  collaborator, or the resumption of a start function after its \<^verbatim>\<open>await\<close>. The
  module runs one of them to completion at a time (one event loop).
\<close>

datatype event =
    Boot "WebStartOptions option"
  | RegisterComponentDescriptor DescriptorType
  | ResolveAutoMode
  | BeforeEnhancedNavigation
  | AfterDocumentUpdated
  | AfterEnhancedNavigation
  | CircuitStartResumed
  | WebAssemblyLoadResumed
  | WebAssemblyStartResumed

fun handle :: "boot_state \<Rightarrow> event \<Rightarrow> boot_state" where
  "handle s (Boot options) = snd (boot options s)"
| "handle s (RegisterComponentDescriptor ty) = registerComponentDescriptor ty s"
| "handle s ResolveAutoMode = snd (autoModeResolver s)"
| "handle s BeforeEnhancedNavigation = beforeEnhancedNavigation s"
| "handle s AfterDocumentUpdated = afterDocumentUpdated s"
| "handle s AfterEnhancedNavigation = afterEnhancedNavigation s"
| "handle s CircuitStartResumed = startCircuitIfNotStarted_resumed s"
| "handle s WebAssemblyLoadResumed = startLoadingWebAssembly_resumed s"
| "handle s WebAssemblyStartResumed = startWebAssemblyIfNotStarted_resumed s"

definition run :: "event list \<Rightarrow> boot_state \<Rightarrow> boot_state" where
  "run es s = foldl handle s es"

fun is_load :: "external_call \<Rightarrow> bool" where
  "is_load (LoadWebAssemblyPlatform w) = True"
| "is_load c = False"

fun is_start_webassembly :: "external_call \<Rightarrow> bool" where
  "is_start_webassembly (StartWebAssembly w) = True"
| "is_start_webassembly c = False"

fun is_start_circuit :: "external_call \<Rightarrow> bool" where
  "is_start_circuit (StartCircuit c) = True"
| "is_start_circuit c = False"

definition count_calls :: "(external_call \<Rightarrow> bool) \<Rightarrow> boot_state \<Rightarrow> nat" where
  "count_calls p s = length (filter p (calls s))"

text \<open>
  The invariant behind the start guards: each guard is set exactly when its start
  has been issued, and then it has been issued once.
\<close>

definition guards_count_calls :: "boot_state \<Rightarrow> bool" where
  "guards_count_calls s =
     (count_calls is_load s = (if hasStartedLoadingWebAssembly s then 1 else 0)
      \<and> count_calls is_start_webassembly s = (if isStartingWebAssembly s then 1 else 0)
      \<and> count_calls is_start_circuit s = (if hasCircuitStarted s then 1 else 0))"

section \<open>Vocabulary of the properties\<close>

text \<open>
  The ordering key of a descriptor (the method \<^verbatim>\<open>getUniqueId\<close> of both classes) and the
  type of a comment.
\<close>

fun getUniqueId :: "ComponentDescriptor \<Rightarrow> int" where
  "getUniqueId (Server d) = sequence_sd d"
| "getUniqueId (WebAssembly d) = id_wd d"

fun comment_type :: "ComponentComment \<Rightarrow> ComponentType" where
  "comment_type (ServerComment c) = server"
| "comment_type (WebAssemblyComment c) = webassembly"

text \<open>
  The builtins on the texts used in the examples below: what \<^verbatim>\<open>JSON.parse\<close> and
  \<^verbatim>\<open>atob\<close> return on them. It is applied to these texts only.
\<close>

definition sample_builtins :: builtins where
  \<open>sample_builtins =
     \<lparr>JSON_parse = (\<lambda>s.
        if s = ''{"type":"server","sequence":0,"descriptor":"A"}''
        then Some [(''type'', JString ''server''), (''sequence'', JNumber 0), (''descriptor'', JString ''A'')]
        else if s = ''{"type":"server","sequence":1,"descriptor":"B"}''
        then Some [(''type'', JString ''server''), (''sequence'', JNumber 1), (''descriptor'', JString ''B'')]
        else if s = ''{"type":"server","sequence":2,"descriptor":"C","prerenderId":"X"}''
        then Some [(''type'', JString ''server''), (''sequence'', JNumber 2), (''descriptor'', JString ''C''),
                   (''prerenderId'', JString ''X'')]
        else if s = ''{"type":"server","sequence":3,"descriptor":"D","prerenderId":""}''
        then Some [(''type'', JString ''server''), (''sequence'', JNumber 3), (''descriptor'', JString ''D''),
                   (''prerenderId'', JString [])]
        else if s = ''{"type":"webassembly","assembly":"App","typeName":"Counter","prerenderId":"X"}''
        then Some [(''type'', JString ''webassembly''), (''assembly'', JString ''App''),
                   (''typeName'', JString ''Counter''), (''prerenderId'', JString ''X'')]
        else if s = ''{"type":"webassembly","assembly":"App","typeName":"Clock","parameterDefinitions":"QQ==","parameterValues":""}''
        then Some [(''type'', JString ''webassembly''), (''assembly'', JString ''App''),
                   (''typeName'', JString ''Clock''), (''parameterDefinitions'', JString ''QQ==''),
                   (''parameterValues'', JString [])]
        else if s = ''{"prerenderId":"X"}'' then Some [(''prerenderId'', JString ''X'')]
        else if s = ''{"prerenderId":"Y"}'' then Some [(''prerenderId'', JString ''Y'')]
        else None),
      atob = (\<lambda>v. if v = JString ''QQ=='' then Some ''A'' else None)\<rparr>\<close>

text \<open>
  The states an iterator goes through: the iterator over \<open>nodes\<close> whose cursor is at
  index \<open>i\<close>. The constructor gives \<open>iterator_at nodes (- 1)\<close>, and \<open>next\<close> moves from
  \<open>iterator_at nodes i\<close> to \<open>iterator_at nodes (i + 1)\<close>.
\<close>

definition iterator_at :: "node list \<Rightarrow> int \<Rightarrow> ComponentCommentIterator" where
  "iterator_at nodes i =
     \<lparr>childNodes = nodes, currentIndex = i, length_it = length nodes, currentElement = item nodes i\<rparr>"

text \<open>
  The JSON text of a node at which the search for an end comment stops: the node
  is a comment, its text is not empty and matches the marker pattern with a
  descriptor group that is not empty. The search passes over every other node.
\<close>

definition end_candidate :: "node \<Rightarrow> string option" where
  "end_candidate n =
     (if \<not> is_comment n then None
      else if comment_text n = [] then None
      else case blazorCommentRegularExpression_exec (comment_text n) of
             None \<Rightarrow> None
           | Some json \<Rightarrow> if json = [] then None else Some json)"

text \<open>
  The first node of a sibling list at which the search for an end comment stops,
  with the siblings after it; \<open>None\<close> when the search runs to the end of the list.
\<close>

fun find_candidate :: "node list \<Rightarrow> (node \<times> node list) option" where
  "find_candidate [] = None"
| "find_candidate (n # ns) = (if end_candidate n \<noteq> None then Some (n, ns) else find_candidate ns)"

text \<open>
  The two errors that leave \<^verbatim>\<open>getComponentComment\<close>: the marker directly under the
  document, and the malformed-comment error that replaces everything thrown while
  a marker is parsed.
\<close>

fun is_scan_error :: "error \<Rightarrow> bool" where
  "is_scan_error RootComponentOnDocument = True"
| "is_scan_error (MalformedComponentComment t) = True"
| "is_scan_error e = False"

text \<open>
  The markers of a forest as the specification describes them, independently of
  the scanner. A marker is a start comment, its parsed payload and its end comment
  when it has one. In a sibling list a marker comment starts a marker; when its
  payload carries a truthy \<open>prerenderId\<close> the marker runs to the next sibling that is
  a marker comment, which is its end comment, and nothing in between belongs to
  another marker. Outside such a region the children of a sibling that is not a
  marker comment are searched in the same way, unless only the siblings are asked
  for. The result is in document order. \<open>pending\<close> is the start marker whose end
  comment is still to come.
\<close>

type_synonym marker = "node \<times> payload \<times> node option"

fun type_name :: "ComponentType \<Rightarrow> string" where
  "type_name server = ''server''"
| "type_name webassembly = ''webassembly''"

definition has_type :: "ComponentType \<Rightarrow> marker \<Rightarrow> bool" where
  "has_type ty m = (case m of (start, payload, end') \<Rightarrow>
                      get_prop payload ''type'' = Some (JString (type_name ty)))"

fun tree_markers :: "builtins \<Rightarrow> bool \<Rightarrow> (node \<times> payload) option \<Rightarrow> node list \<Rightarrow> marker list"
  and node_markers :: "builtins \<Rightarrow> node \<Rightarrow> marker list" where
  "tree_markers B siblingsOnly pending [] = []"
| "tree_markers B siblingsOnly pending (n # ns) =
     (case end_candidate n of
        None \<Rightarrow>
          (if siblingsOnly \<or> pending \<noteq> None then [] else node_markers B n)
          @ tree_markers B siblingsOnly pending ns
      | Some json \<Rightarrow>
          (case pending of
             Some (start, payload) \<Rightarrow> (start, payload, Some n) # tree_markers B siblingsOnly None ns
           | None \<Rightarrow>
               (case JSON_parse B json of
                  None \<Rightarrow> tree_markers B siblingsOnly None ns
                | Some payload \<Rightarrow>
                    if truthy_opt (get_prop payload ''prerenderId'')
                    then tree_markers B siblingsOnly (Some (n, payload)) ns
                    else (n, payload, None) # tree_markers B siblingsOnly None ns)))"
| "node_markers B (Comment t) = []"
| "node_markers B (Text t) = []"
| "node_markers B (Element cs) = tree_markers B False None cs"
| "node_markers B (Document cs) = tree_markers B False None cs"

definition markers_of_type :: "builtins \<Rightarrow> bool \<Rightarrow> node \<Rightarrow> ComponentType \<Rightarrow> marker list" where
  "markers_of_type B siblingsOnly root_node ty =
     filter (has_type ty) (tree_markers B siblingsOnly None (childNodes_of root_node))"

text \<open>
  The descriptor that a marker stands for. A server descriptor has the integer
  \<open>sequence\<close> and the \<open>descriptor\<close> of the payload. A local-execution descriptor has
  the \<open>assembly\<close> and \<open>typeName\<close> of the payload, its two parameter blobs decoded when
  they are truthy, the id it is given, and no end comment. The markers of a list
  are numbered in document order from the value of the counter.
\<close>

definition decoded :: "builtins \<Rightarrow> json option \<Rightarrow> json option" where
  "decoded B v =
     (case v of
        None \<Rightarrow> None
      | Some x \<Rightarrow> if truthy x then map_option JString (atob B x) else Some x)"

definition server_descriptor_of :: "marker \<Rightarrow> ServerComponentDescriptor" where
  "server_descriptor_of m =
     (case m of (start, payload, end') \<Rightarrow>
        \<lparr>start_sd = start, end_sd = end',
         sequence_sd = integer_value (the (get_prop payload ''sequence'')),
         descriptor_sd = the (get_prop payload ''descriptor'')\<rparr>)"

definition webassembly_descriptor_of :: "builtins \<Rightarrow> int \<Rightarrow> marker \<Rightarrow> WebAssemblyComponentDescriptor" where
  "webassembly_descriptor_of B i m =
     (case m of (start, payload, end') \<Rightarrow>
        \<lparr>typeName_wd = the (get_prop payload ''typeName''),
         assembly_wd = the (get_prop payload ''assembly''),
         parameterDefinitions_wd = decoded B (get_prop payload ''parameterDefinitions''),
         parameterValues_wd = decoded B (get_prop payload ''parameterValues''),
         id_wd = i, start_wd = start, end_wd = None\<rparr>)"

fun number_from :: "int \<Rightarrow> 'a list \<Rightarrow> (int \<times> 'a) list" where
  "number_from i [] = []"
| "number_from i (x # xs) = (i, x) # number_from (i + 1) xs"

definition marker_descriptors ::
  "builtins \<Rightarrow> int \<Rightarrow> ComponentType \<Rightarrow> marker list \<Rightarrow> ComponentDescriptor list" where
  "marker_descriptors B globalId ty ms =
     (case ty of
        server \<Rightarrow> map (\<lambda>m. Server (server_descriptor_of m)) ms
      | webassembly \<Rightarrow>
          map (\<lambda>(i, m). WebAssembly (webassembly_descriptor_of B i m)) (number_from globalId ms))"

text \<open>The parse result that a marker of the requested type stands for.\<close>

fun comment_of :: "builtins \<Rightarrow> ComponentType \<Rightarrow> marker \<Rightarrow> ComponentComment" where
  "comment_of B server (start, payload, end') =
     ServerComment \<lparr>sequence_sc = integer_value (the (get_prop payload ''sequence'')),
                    descriptor_sc = the (get_prop payload ''descriptor''),
                    start_sc = start, end_sc = end',
                    prerenderId_sc = get_prop payload ''prerenderId''\<rparr>"
| "comment_of B webassembly (start, payload, end') =
     WebAssemblyComment \<lparr>typeName_wc = the (get_prop payload ''typeName''),
                         assembly_wc = the (get_prop payload ''assembly''),
                         parameterDefinitions_wc = decoded B (get_prop payload ''parameterDefinitions''),
                         parameterValues_wc = decoded B (get_prop payload ''parameterValues''),
                         prerenderId_wc = get_prop payload ''prerenderId'',
                         start_wc = start, end_wc = end'\<rparr>"

text \<open>
  The texts of the comments of a subtree in document order, the payload of the
  first of them that matches the persisted-state pattern, and its position among
  the comments.
\<close>

fun comment_texts :: "node \<Rightarrow> string list"
  and comment_texts_list :: "node list \<Rightarrow> string list" where
  "comment_texts (Comment t) = [t]"
| "comment_texts (Text t) = []"
| "comment_texts (Element ns) = comment_texts_list ns"
| "comment_texts (Document ns) = comment_texts_list ns"
| "comment_texts_list [] = []"
| "comment_texts_list (n # ns) = comment_texts n @ comment_texts_list ns"

fun first_state :: "string list \<Rightarrow> string option" where
  "first_state [] = None"
| "first_state (t # ts) =
     (case blazorStateCommentRegularExpression_exec t of
        Some v \<Rightarrow> Some v
      | None \<Rightarrow> first_state ts)"

fun first_state_index :: "string list \<Rightarrow> nat" where
  "first_state_index [] = 0"
| "first_state_index (t # ts) =
     (case blazorStateCommentRegularExpression_exec t of
        Some v \<Rightarrow> 0
      | None \<Rightarrow> Suc (first_state_index ts))"

text \<open>
  Taking one comment node out of a forest by its position among the comments in
  document order (the first comment has position 0); everything else stays.
\<close>

fun remove_nth_comment :: "nat \<Rightarrow> node list \<Rightarrow> node list"
  and remove_nth_comment_in :: "nat \<Rightarrow> node \<Rightarrow> node list" where
  "remove_nth_comment k [] = []"
| "remove_nth_comment k (n # ns) =
     (if k < length (comment_texts n) then remove_nth_comment_in k n @ ns
      else n # remove_nth_comment (k - length (comment_texts n)) ns)"
| "remove_nth_comment_in k (Comment t) = []"
| "remove_nth_comment_in k (Text t) = [Text t]"
| "remove_nth_comment_in k (Element cs) = [Element (remove_nth_comment k cs)]"
| "remove_nth_comment_in k (Document cs) = [Document (remove_nth_comment k cs)]"

section \<open>Properties of merge\<close>

text \<open>
  C1 (amended). Merging into a server descriptor an incoming server descriptor
  succeeds and replaces \<open>end\<close>, \<open>sequence\<close> and \<open>descriptor\<close>. Merging into a
  local-execution descriptor an incoming one with the same \<open>typeName\<close> and
  \<open>assembly\<close> succeeds and replaces \<open>id\<close>, \<open>parameterDefinitions\<close> and
  \<open>parameterValues\<close>, while \<open>end\<close> keeps the value it had. In both cases \<open>start\<close>
  is the one of the existing descriptor.
\<close>

theorem C1_merge_replaces_payload_keeps_start:
  "merge (Server e) (Server i) =
     (Inr (), Server \<lparr>start_sd = start_sd e, end_sd = end_sd i, sequence_sd = sequence_sd i,
                      descriptor_sd = descriptor_sd i\<rparr>)
   \<and> (strict_equals (typeName_wd t) (typeName_wd w) \<and> strict_equals (assembly_wd t) (assembly_wd w)
      \<longrightarrow> merge (WebAssembly t) (WebAssembly w) =
            (Inr (), WebAssembly \<lparr>typeName_wd = typeName_wd t, assembly_wd = assembly_wd t,
                 parameterDefinitions_wd = parameterDefinitions_wd w,
                 parameterValues_wd = parameterValues_wd w, id_wd = id_wd w,
                 start_wd = start_wd t, end_wd = end_wd t\<rparr>))"
  by (cases e, cases t) (simp add: merge_sd_def merge_wd_def)

theorem C1_merge_witness:
  "merge (Server \<lparr>start_sd = Comment ''a'', end_sd = None, sequence_sd = 0, descriptor_sd = JString ''AAA''\<rparr>)
         (Server \<lparr>start_sd = Comment ''b'', end_sd = Some (Comment ''c''), sequence_sd = 4,
                  descriptor_sd = JString ''BBB''\<rparr>) =
     (Inr (), Server \<lparr>start_sd = Comment ''a'', end_sd = Some (Comment ''c''), sequence_sd = 4,
                      descriptor_sd = JString ''BBB''\<rparr>)
   \<and> merge (WebAssembly \<lparr>typeName_wd = JString ''App'', assembly_wd = JString ''Lib'',
                 parameterDefinitions_wd = None, parameterValues_wd = None, id_wd = 1,
                 start_wd = Comment ''a'', end_wd = None\<rparr>)
           (WebAssembly \<lparr>typeName_wd = JString ''App'', assembly_wd = JString ''Lib'',
                 parameterDefinitions_wd = Some (JString ''p''), parameterValues_wd = Some (JString ''v''),
                 id_wd = 2, start_wd = Comment ''b'', end_wd = None\<rparr>) =
     (Inr (), WebAssembly \<lparr>typeName_wd = JString ''App'', assembly_wd = JString ''Lib'',
                 parameterDefinitions_wd = Some (JString ''p''), parameterValues_wd = Some (JString ''v''),
                 id_wd = 2, start_wd = Comment ''a'', end_wd = None\<rparr>)"
  using C1_merge_replaces_payload_keeps_start
    [of "\<lparr>start_sd = Comment ''a'', end_sd = None, sequence_sd = 0, descriptor_sd = JString ''AAA''\<rparr>"
        "\<lparr>start_sd = Comment ''b'', end_sd = Some (Comment ''c''), sequence_sd = 4,
          descriptor_sd = JString ''BBB''\<rparr>"
        "\<lparr>typeName_wd = JString ''App'', assembly_wd = JString ''Lib'',
          parameterDefinitions_wd = None, parameterValues_wd = None, id_wd = 1,
          start_wd = Comment ''a'', end_wd = None\<rparr>"
        "\<lparr>typeName_wd = JString ''App'', assembly_wd = JString ''Lib'',
          parameterDefinitions_wd = Some (JString ''p''), parameterValues_wd = Some (JString ''v''),
          id_wd = 2, start_wd = Comment ''b'', end_wd = None\<rparr>"]
  by simp

text \<open>
  C1 as stated fails on local-execution descriptors: the merge succeeds, yet the
  existing descriptor does not take the incoming \<open>end\<close>.
\<close>

theorem C1_wasm_end_counterexample:
  "fst (merge_wd \<lparr>typeName_wd = JString ''App'', assembly_wd = JString ''Lib'',
                 parameterDefinitions_wd = None, parameterValues_wd = None, id_wd = 1,
                 start_wd = Comment ''a'', end_wd = None\<rparr>
          (WebAssembly \<lparr>typeName_wd = JString ''App'', assembly_wd = JString ''Lib'',
                 parameterDefinitions_wd = None, parameterValues_wd = None, id_wd = 2,
                 start_wd = Comment ''b'', end_wd = Some (Comment ''c'')\<rparr>)) = Inr ()
   \<and> end_wd (snd (merge_wd \<lparr>typeName_wd = JString ''App'', assembly_wd = JString ''Lib'',
                 parameterDefinitions_wd = None, parameterValues_wd = None, id_wd = 1,
                 start_wd = Comment ''a'', end_wd = None\<rparr>
          (WebAssembly \<lparr>typeName_wd = JString ''App'', assembly_wd = JString ''Lib'',
                 parameterDefinitions_wd = None, parameterValues_wd = None, id_wd = 2,
                 start_wd = Comment ''b'', end_wd = Some (Comment ''c'')\<rparr>))) \<noteq> Some (Comment ''c'')"
  by (simp add: merge_wd_def)

text \<open>
  C7. A merge of descriptors of different types fails and leaves the existing
  descriptor as it was; so does a merge of local-execution descriptors whose
  \<open>typeName\<close> or \<open>assembly\<close> differ. The outcome is an error, never one of the sides.
\<close>

theorem C7_merge_incompatible_fails_unchanged:
  "(type_of existing \<noteq> type_of incoming
      \<longrightarrow> merge existing incoming =
            (Inl (DifferingTypes (type_of existing) (type_of incoming)), existing))
   \<and> (\<not> strict_equals (typeName_wd t) (typeName_wd w)
      \<longrightarrow> merge (WebAssembly t) (WebAssembly w) =
            (Inl (DifferentComponentTypes (typeName_wd t) (typeName_wd w)), WebAssembly t))
   \<and> (strict_equals (typeName_wd t) (typeName_wd w) \<and> \<not> strict_equals (assembly_wd t) (assembly_wd w)
      \<longrightarrow> merge (WebAssembly t) (WebAssembly w) =
            (Inl (DifferentAssemblies (assembly_wd t) (assembly_wd w)), WebAssembly t))"
  by (cases existing; cases incoming) (simp_all add: merge_sd_def merge_wd_def)

theorem C7_merge_incompatible_witness:
  "merge (Server \<lparr>start_sd = Comment ''a'', end_sd = None, sequence_sd = 0, descriptor_sd = JString ''AAA''\<rparr>)
         (WebAssembly \<lparr>typeName_wd = JString ''App'', assembly_wd = JString ''Lib'',
                 parameterDefinitions_wd = None, parameterValues_wd = None, id_wd = 1,
                 start_wd = Comment ''b'', end_wd = None\<rparr>) =
     (Inl (DifferingTypes server webassembly),
      Server \<lparr>start_sd = Comment ''a'', end_sd = None, sequence_sd = 0, descriptor_sd = JString ''AAA''\<rparr>)
   \<and> merge (WebAssembly \<lparr>typeName_wd = JString ''App'', assembly_wd = JString ''Lib'',
                 parameterDefinitions_wd = None, parameterValues_wd = None, id_wd = 1,
                 start_wd = Comment ''a'', end_wd = None\<rparr>)
           (WebAssembly \<lparr>typeName_wd = JString ''Other'', assembly_wd = JString ''Lib'',
                 parameterDefinitions_wd = None, parameterValues_wd = None, id_wd = 2,
                 start_wd = Comment ''b'', end_wd = None\<rparr>) =
     (Inl (DifferentComponentTypes (JString ''App'') (JString ''Other'')),
      WebAssembly \<lparr>typeName_wd = JString ''App'', assembly_wd = JString ''Lib'',
                 parameterDefinitions_wd = None, parameterValues_wd = None, id_wd = 1,
                 start_wd = Comment ''a'', end_wd = None\<rparr>)
   \<and> merge (WebAssembly \<lparr>typeName_wd = JString ''App'', assembly_wd = JString ''Lib'',
                 parameterDefinitions_wd = None, parameterValues_wd = None, id_wd = 1,
                 start_wd = Comment ''a'', end_wd = None\<rparr>)
           (WebAssembly \<lparr>typeName_wd = JString ''App'', assembly_wd = JString ''Lib2'',
                 parameterDefinitions_wd = None, parameterValues_wd = None, id_wd = 2,
                 start_wd = Comment ''b'', end_wd = None\<rparr>) =
     (Inl (DifferentAssemblies (JString ''Lib'') (JString ''Lib2'')),
      WebAssembly \<lparr>typeName_wd = JString ''App'', assembly_wd = JString ''Lib'',
                 parameterDefinitions_wd = None, parameterValues_wd = None, id_wd = 1,
                 start_wd = Comment ''a'', end_wd = None\<rparr>)"
  using C7_merge_incompatible_fails_unchanged
    [of "Server \<lparr>start_sd = Comment ''a'', end_sd = None, sequence_sd = 0, descriptor_sd = JString ''AAA''\<rparr>"
        "WebAssembly \<lparr>typeName_wd = JString ''App'', assembly_wd = JString ''Lib'',
                 parameterDefinitions_wd = None, parameterValues_wd = None, id_wd = 1,
                 start_wd = Comment ''b'', end_wd = None\<rparr>"
        "\<lparr>typeName_wd = JString ''App'', assembly_wd = JString ''Lib'',
                 parameterDefinitions_wd = None, parameterValues_wd = None, id_wd = 1,
                 start_wd = Comment ''a'', end_wd = None\<rparr>"
        "\<lparr>typeName_wd = JString ''Other'', assembly_wd = JString ''Lib'',
                 parameterDefinitions_wd = None, parameterValues_wd = None, id_wd = 2,
                 start_wd = Comment ''b'', end_wd = None\<rparr>"]
    C7_merge_incompatible_fails_unchanged
    [of "Server \<lparr>start_sd = Comment ''a'', end_sd = None, sequence_sd = 0, descriptor_sd = JString ''AAA''\<rparr>"
        "WebAssembly \<lparr>typeName_wd = JString ''App'', assembly_wd = JString ''Lib'',
                 parameterDefinitions_wd = None, parameterValues_wd = None, id_wd = 1,
                 start_wd = Comment ''b'', end_wd = None\<rparr>"
        "\<lparr>typeName_wd = JString ''App'', assembly_wd = JString ''Lib'',
                 parameterDefinitions_wd = None, parameterValues_wd = None, id_wd = 1,
                 start_wd = Comment ''a'', end_wd = None\<rparr>"
        "\<lparr>typeName_wd = JString ''App'', assembly_wd = JString ''Lib2'',
                 parameterDefinitions_wd = None, parameterValues_wd = None, id_wd = 2,
                 start_wd = Comment ''b'', end_wd = None\<rparr>"]
  by simp

section \<open>Properties of the circuit descriptor\<close>

text \<open>
  C3 (amended). For a non-empty id, \<open>initialize\<close> on a descriptor whose \<open>circuitId\<close>
  is unset (absent or empty) sets \<open>circuitId\<close> to the id, and every later call of
  \<open>initialize\<close> fails and leaves the descriptor, hence its \<open>circuitId\<close>, as it was.
\<close>

theorem C3_initialize_once:
  assumes "cid \<noteq> []" and "\<not> truthy_string (circuitId this)"
  shows "initialize cid this = (Inr (), this\<lparr>circuitId := Some cid\<rparr>)
         \<and> initialize cid' (this\<lparr>circuitId := Some cid\<rparr>) =
             (Inl (CircuitAlreadyInitialized cid), this\<lparr>circuitId := Some cid\<rparr>)"
  using assms by (simp add: initialize_def)

theorem C3_initialize_once_witness:
  "''c1'' \<noteq> [] \<and> \<not> truthy_string (circuitId (new_CircuitDescriptor (ComponentList []) ''st''))
   \<and> initialize ''c1'' (new_CircuitDescriptor (ComponentList []) ''st'') =
       (Inr (), \<lparr>circuitId = Some ''c1'', components = [], rootComponentManager = None,
                 applicationState = ''st''\<rparr>)
   \<and> initialize ''c2'' \<lparr>circuitId = Some ''c1'', components = [], rootComponentManager = None,
                         applicationState = ''st''\<rparr> =
       (Inl (CircuitAlreadyInitialized ''c1''),
        \<lparr>circuitId = Some ''c1'', components = [], rootComponentManager = None,
          applicationState = ''st''\<rparr>)"
  using C3_initialize_once [of "''c1''" "new_CircuitDescriptor (ComponentList []) ''st''" "''c2''"]
  by (simp add: new_CircuitDescriptor_def)

text \<open>
  C3 as stated fails when the first id is the empty string: the second call
  succeeds and assigns a different id.
\<close>

theorem C3_initialize_empty_id_counterexample:
  "initialize [] (new_CircuitDescriptor (ComponentList []) ''st'') =
     (Inr (), \<lparr>circuitId = Some [], components = [], rootComponentManager = None,
               applicationState = ''st''\<rparr>)
   \<and> initialize ''c2'' \<lparr>circuitId = Some [], components = [], rootComponentManager = None,
                         applicationState = ''st''\<rparr> =
     (Inr (), \<lparr>circuitId = Some ''c2'', components = [], rootComponentManager = None,
               applicationState = ''st''\<rparr>)"
  by (simp add: initialize_def new_CircuitDescriptor_def)

text \<open>
  C6. On a connection that is not in the connected state \<open>startCircuit\<close> returns
  \<open>false\<close>, the descriptor is as before (an unset \<open>circuitId\<close> stays unset) and no
  remote call has been made on the connection.
\<close>

theorem C6_startCircuit_not_connected:
  assumes "state connection \<noteq> Connected"
  shows "startCircuit env connection this = (Inr False, this, connection)"
  using assms by (simp add: startCircuit_def)

theorem C6_startCircuit_not_connected_witness:
  "state \<lparr>state = Disconnected, invoke = (\<lambda>m args. Inr (Some ''c1'')), invocations = []\<rparr> \<noteq> Connected
   \<and> startCircuit \<lparr>getBaseURI = ''/'', getLocationHref = ''/a'', stringify_markers = (\<lambda>cs. ''[]'')\<rparr>
        \<lparr>state = Disconnected, invoke = (\<lambda>m args. Inr (Some ''c1'')), invocations = []\<rparr>
        (new_CircuitDescriptor (ComponentList []) ''st'') =
      (Inr False,
       \<lparr>circuitId = None, components = [], rootComponentManager = None, applicationState = ''st''\<rparr>,
       \<lparr>state = Disconnected, invoke = (\<lambda>m args. Inr (Some ''c1'')), invocations = []\<rparr>)"
  using C6_startCircuit_not_connected
    [of "\<lparr>state = Disconnected, invoke = (\<lambda>m args. Inr (Some ''c1'')), invocations = []\<rparr>"
        "\<lparr>getBaseURI = ''/'', getLocationHref = ''/a'', stringify_markers = (\<lambda>cs. ''[]'')\<rparr>"
        "new_CircuitDescriptor (ComponentList []) ''st''"]
  by (simp add: new_CircuitDescriptor_def)

section \<open>Properties of the boot orchestrator\<close>

lemmas boot_defs = call_def handleUpdatedDescriptors_def startCircuitIfNotStarted_def
  startCircuitIfNotStarted_resumed_def startLoadingWebAssembly_def startLoadingWebAssembly_resumed_def
  startWebAssemblyIfNotStarted_def startWebAssemblyIfNotStarted_resumed_def
  registerComponentDescriptor_def autoModeResolver_def beforeEnhancedNavigation_def
  afterDocumentUpdated_def afterEnhancedNavigation_def boot_def count_calls_def

lemma handle_guards_count_calls:
  "guards_count_calls s \<Longrightarrow> guards_count_calls (handle s e)"
  by (cases e) (auto simp: guards_count_calls_def boot_defs Let_def split: DescriptorType.splits)

lemma run_guards_count_calls:
  "guards_count_calls s \<Longrightarrow> guards_count_calls (run es s)"
  unfolding run_def by (induction es arbitrary: s) (simp_all add: handle_guards_count_calls)

lemma initial_guards_count_calls: "guards_count_calls initial_boot_state"
  by (simp add: guards_count_calls_def initial_boot_state_def count_calls_def)

lemma handle_flags_mono:
  "(hasStartedLoadingWebAssembly s \<longrightarrow> hasStartedLoadingWebAssembly (handle s e))
   \<and> (isStartingWebAssembly s \<longrightarrow> isStartingWebAssembly (handle s e))
   \<and> (hasCircuitStarted s \<longrightarrow> hasCircuitStarted (handle s e))
   \<and> (started s \<longrightarrow> started (handle s e))"
  by (cases e) (auto simp: boot_defs Let_def split: DescriptorType.splits)

lemma run_flags_mono:
  "(hasStartedLoadingWebAssembly s \<longrightarrow> hasStartedLoadingWebAssembly (run es s))
   \<and> (isStartingWebAssembly s \<longrightarrow> isStartingWebAssembly (run es s))
   \<and> (hasCircuitStarted s \<longrightarrow> hasCircuitStarted (run es s))
   \<and> (started s \<longrightarrow> started (run es s))"
  unfolding run_def
proof (induction es arbitrary: s)
  case Nil
  show ?case by simp
next
  case (Cons e es)
  show ?case using Cons.IH [of "handle s e"] handle_flags_mono [of s e] by simp
qed

lemma register_sets_guard:
  "hasStartedLoadingWebAssembly (handle s (RegisterComponentDescriptor TypeAuto))"
  "isStartingWebAssembly (handle s (RegisterComponentDescriptor TypeWebAssembly))"
  "hasCircuitStarted (handle s (RegisterComponentDescriptor TypeServer))"
  by (simp_all add: boot_defs Let_def)

lemma run_append: "run (xs @ ys) s = run ys (run xs s)"
  by (simp add: run_def)

lemma run_Cons: "run (e # es) s = run es (handle s e)"
  by (simp add: run_def)

lemma run_through:
  assumes "e \<in> set es"
  shows "\<exists>xs ys. run es s = run ys (handle (run xs s) e)"
proof -
  from assms obtain xs ys where "es = xs @ e # ys"
    by (auto simp: in_set_conv_decomp)
  then have "run es s = run ys (handle (run xs s) e)"
    by (simp add: run_append run_Cons)
  then show ?thesis by blast
qed

lemma registered_guard_set:
  "RegisterComponentDescriptor TypeAuto \<in> set es \<Longrightarrow> hasStartedLoadingWebAssembly (run es s)"
  "RegisterComponentDescriptor TypeWebAssembly \<in> set es \<Longrightarrow> isStartingWebAssembly (run es s)"
  "RegisterComponentDescriptor TypeServer \<in> set es \<Longrightarrow> hasCircuitStarted (run es s)"
  using run_through [of _ es s] run_flags_mono register_sets_guard by metis+

text \<open>
  C9. Whatever the module is sent, in whatever order (registrations, resolver
  calls, navigation callbacks, resumptions of the start functions), the payload
  load and the local-execution start are each issued at most once; as soon as one
  \<open>auto\<close> descriptor has been registered the load has been issued exactly once, and
  as soon as one \<open>webassembly\<close> descriptor has been registered the start has been
  issued exactly once. A start function whose guard is set does nothing.
\<close>

theorem C9_runtime_started_at_most_once:
  "count_calls is_load (run es initial_boot_state) \<le> 1
   \<and> count_calls is_start_webassembly (run es initial_boot_state) \<le> 1
   \<and> (RegisterComponentDescriptor TypeAuto \<in> set es
        \<longrightarrow> count_calls is_load (run es initial_boot_state) = 1)
   \<and> (RegisterComponentDescriptor TypeWebAssembly \<in> set es
        \<longrightarrow> count_calls is_start_webassembly (run es initial_boot_state) = 1)
   \<and> (hasStartedLoadingWebAssembly s \<longrightarrow> startLoadingWebAssembly s = s)
   \<and> (isStartingWebAssembly s \<longrightarrow> startWebAssemblyIfNotStarted s = s)"
proof -
  have inv: "guards_count_calls (run es initial_boot_state)"
    by (rule run_guards_count_calls [OF initial_guards_count_calls])
  show ?thesis
    using inv registered_guard_set(1,2) [of es initial_boot_state]
    by (auto simp: guards_count_calls_def startLoadingWebAssembly_def startWebAssemblyIfNotStarted_def)
qed

theorem C9_runtime_started_at_most_once_witness:
  "count_calls is_load (run (replicate 3 (RegisterComponentDescriptor TypeAuto)) initial_boot_state) = 1
   \<and> count_calls is_start_webassembly
        (run [RegisterComponentDescriptor TypeWebAssembly, RegisterComponentDescriptor TypeAuto,
              RegisterComponentDescriptor TypeWebAssembly] initial_boot_state) = 1
   \<and> hasStartedLoadingWebAssembly
        (run [RegisterComponentDescriptor TypeAuto, RegisterComponentDescriptor TypeWebAssembly]
           initial_boot_state)
   \<and> startLoadingWebAssembly
        (run [RegisterComponentDescriptor TypeAuto, RegisterComponentDescriptor TypeWebAssembly]
           initial_boot_state) =
       run [RegisterComponentDescriptor TypeAuto, RegisterComponentDescriptor TypeWebAssembly]
         initial_boot_state
   \<and> isStartingWebAssembly
        (run [RegisterComponentDescriptor TypeAuto, RegisterComponentDescriptor TypeWebAssembly]
           initial_boot_state)
   \<and> startWebAssemblyIfNotStarted
        (run [RegisterComponentDescriptor TypeAuto, RegisterComponentDescriptor TypeWebAssembly]
           initial_boot_state) =
       run [RegisterComponentDescriptor TypeAuto, RegisterComponentDescriptor TypeWebAssembly]
         initial_boot_state"
proof -
  have flags:
    "hasStartedLoadingWebAssembly
       (run [RegisterComponentDescriptor TypeAuto, RegisterComponentDescriptor TypeWebAssembly]
          initial_boot_state)"
    "isStartingWebAssembly
       (run [RegisterComponentDescriptor TypeAuto, RegisterComponentDescriptor TypeWebAssembly]
          initial_boot_state)"
    by (simp_all add: run_def boot_defs Let_def initial_boot_state_def)
  show ?thesis
    using flags
      C9_runtime_started_at_most_once
        [of "replicate 3 (RegisterComponentDescriptor TypeAuto)"
            "run [RegisterComponentDescriptor TypeAuto, RegisterComponentDescriptor TypeWebAssembly]
               initial_boot_state"]
      C9_runtime_started_at_most_once
        [of "[RegisterComponentDescriptor TypeWebAssembly, RegisterComponentDescriptor TypeAuto,
              RegisterComponentDescriptor TypeWebAssembly]" initial_boot_state]
    by (simp add: numeral_3_eq_3)
qed

text \<open>
  C10. A call of \<open>boot\<close> in a module that has not started succeeds, sets \<open>started\<close>
  and makes the initialization calls, once each. After any call of \<open>boot\<close>, and
  whatever the module is sent in between, a further call of \<open>boot\<close> throws and
  changes nothing: no initialization call is made again.
\<close>

theorem C10_boot_at_most_once:
  "(\<not> started s \<longrightarrow>
      fst (boot options s) = Inr ()
      \<and> started (snd (boot options s))
      \<and> calls (snd (boot options s)) =
          calls s @ [AttachComponentDescriptorHandler, AttachStreamingRenderingListener (ssr_of options),
                     AttachAutoModeResolver]
            @ (if disableDomPreservation_of options then []
               else [AttachProgressivelyEnhancedNavigationListener])
            @ [RegisterAllComponentDescriptors])
   \<and> boot options' (run es (snd (boot options s))) =
       (Inl BlazorAlreadyStarted, run es (snd (boot options s)))"
proof -
  have "started (snd (boot options s))"
    by (simp add: boot_def call_def Let_def)
  then have "started (run es (snd (boot options s)))"
    using run_flags_mono by blast
  then show ?thesis
    by (simp add: boot_def call_def Let_def)
qed

theorem C10_boot_at_most_once_witness:
  "\<not> started initial_boot_state
   \<and> fst (boot None initial_boot_state) = Inr ()
   \<and> started (snd (boot None initial_boot_state))
   \<and> calls (snd (boot None initial_boot_state)) =
       [AttachComponentDescriptorHandler, AttachStreamingRenderingListener None,
        AttachAutoModeResolver, AttachProgressivelyEnhancedNavigationListener,
        RegisterAllComponentDescriptors]
   \<and> boot None (run [RegisterComponentDescriptor TypeServer] (snd (boot None initial_boot_state))) =
       (Inl BlazorAlreadyStarted,
        run [RegisterComponentDescriptor TypeServer] (snd (boot None initial_boot_state)))"
  using C10_boot_at_most_once
    [of initial_boot_state None None "[RegisterComponentDescriptor TypeServer]"]
  by (simp add: initial_boot_state_def ssr_of_def disableDomPreservation_of_def)

section \<open>Properties of the marker scanner\<close>

lemma resolveComponentComments_Nil: "resolveComponentComments B d [] ty dir = Inr []"
  by (simp add: resolve_loop.simps iterator_next_def new_ComponentCommentIterator_def)

text \<open>
  The iterator states, and the search for an end comment step by step: it passes
  over every node that is not a marker comment and stops at the first that is one,
  whose payload it validates.
\<close>

lemma new_iterator_at: "new_ComponentCommentIterator nodes = iterator_at nodes (- 1)"
  by (simp add: new_ComponentCommentIterator_def iterator_at_def item_def)

lemma iterator_next_at:
  "iterator_next (iterator_at nodes i) = (i + 1 < int (length nodes), iterator_at nodes (i + 1))"
  by (auto simp: iterator_next_def iterator_at_def item_def Let_def)

lemma currentElement_at:
  "m < length nodes \<Longrightarrow> currentElement (iterator_at nodes (int m)) = Some (nodes ! m)"
  by (simp add: iterator_at_def item_def)

lemma scan_end_of_list:
  "length nodes \<le> m \<Longrightarrow>
     getComponentEndComment B p (iterator_at nodes (int m - 1)) = Inr (None, iterator_at nodes (int m))"
  by (subst getComponentEndComment.simps) (simp add: iterator_next_at)

lemma scan_skip:
  assumes "m < length nodes" and "end_candidate (nodes ! m) = None"
  shows "getComponentEndComment B p (iterator_at nodes (int m - 1)) =
         getComponentEndComment B p (iterator_at nodes (int (Suc m) - 1))"
  using assms
  by (subst getComponentEndComment.simps)
     (auto simp: iterator_next_at currentElement_at end_candidate_def split: option.splits if_splits)

lemma scan_stop:
  assumes "m < length nodes" and "end_candidate (nodes ! m) = Some json"
  shows "getComponentEndComment B p (iterator_at nodes (int m - 1)) =
         (case validateEndComponentPayload B json p of
            Inl e \<Rightarrow> Inl e
          | Inr u \<Rightarrow> Inr (Some (nodes ! m), iterator_at nodes (int m)))"
  using assms
  by (subst getComponentEndComment.simps)
     (auto simp: iterator_next_at currentElement_at end_candidate_def split: option.splits if_splits)

lemma scan_skips:
  assumes "m + k \<le> length nodes" and "\<forall>j<k. end_candidate (nodes ! (m + j)) = None"
  shows "getComponentEndComment B p (iterator_at nodes (int m - 1)) =
         getComponentEndComment B p (iterator_at nodes (int (m + k) - 1))"
  using assms
proof (induction k arbitrary: m)
  case 0
  show ?case by simp
next
  case (Suc k)
  from Suc.prems have m: "m < length nodes" and c: "end_candidate (nodes ! m) = None"
    by (simp, metis add.right_neutral zero_less_Suc)
  have "\<forall>j<k. end_candidate (nodes ! (Suc m + j)) = None"
    using Suc.prems(2) by (metis Suc_less_eq add_Suc_shift)
  with Suc.prems(1) have
    "getComponentEndComment B p (iterator_at nodes (int (Suc m) - 1)) =
     getComponentEndComment B p (iterator_at nodes (int (Suc m + k) - 1))"
    by (intro Suc.IH) simp_all
  with scan_skip [OF m c, of B p] show ?case by simp
qed

lemma scan_exhausted:
  assumes "\<forall>n\<in>set (drop m nodes). end_candidate n = None"
  shows "getComponentEndComment B p (iterator_at nodes (int m - 1)) =
         Inr (None, iterator_at nodes (int (max m (length nodes))))"
proof (cases "m \<le> length nodes")
  case False
  then show ?thesis using scan_end_of_list [of nodes m B p] by (simp add: max_def)
next
  case True
  define k where "k = length nodes - m"
  have "\<forall>j<k. end_candidate (nodes ! (m + j)) = None"
    using assms True by (auto simp: k_def set_conv_nth)
  moreover have "m + k \<le> length nodes" using True by (simp add: k_def)
  ultimately have "getComponentEndComment B p (iterator_at nodes (int m - 1)) =
         getComponentEndComment B p (iterator_at nodes (int (m + k) - 1))"
    by (rule scan_skips [rotated])
  also have "m + k = length nodes" using True by (simp add: k_def)
  finally show ?thesis using scan_end_of_list [of nodes "length nodes" B p] True
    by (simp add: max_def)
qed


lemma marker_text_not_empty:
  "blazorCommentRegularExpression_exec text = Some json \<Longrightarrow> text \<noteq> []"
  by (auto simp: blazorCommentRegularExpression_exec_def strip_prefix_def)

lemma find_end_exhausted:
  assumes "truthy_opt prerenderId" and "\<forall>n\<in>set (drop (Suc m) nodes). end_candidate n = None"
  shows "find_end B prerenderId (iterator_at nodes (int m)) =
         Inr (None, iterator_at nodes (int (max (Suc m) (length nodes))))"
proof -
  from assms(1) obtain p where p: "prerenderId = Some p" "truthy p"
    by (cases prerenderId) simp_all
  from scan_exhausted [OF assms(2), of B p] p show ?thesis
    by (simp add: find_end_def)
qed

text \<open>The same search in one step, in terms of \<open>find_candidate\<close>.\<close>

lemma find_candidate_None:
  "find_candidate xs = None \<Longrightarrow> \<forall>n\<in>set xs. end_candidate n = None"
  by (induction xs) (auto split: if_splits)

lemma find_candidate_Some:
  "find_candidate xs = Some (e, rest) \<Longrightarrow>
     \<exists>k. k < length xs \<and> xs ! k = e \<and> rest = drop (Suc k) xs
         \<and> (\<forall>j<k. end_candidate (xs ! j) = None) \<and> end_candidate e \<noteq> None"
proof (induction xs)
  case Nil
  then show ?case by simp
next
  case (Cons n ns)
  show ?case
  proof (cases "end_candidate n \<noteq> None")
    case True
    with Cons.prems show ?thesis by (intro exI [of _ 0]) auto
  next
    case False
    with Cons.prems have "find_candidate ns = Some (e, rest)" by simp
    from Cons.IH [OF this] obtain k where k: "k < length ns" "ns ! k = e" "rest = drop (Suc k) ns"
      "\<forall>j<k. end_candidate (ns ! j) = None" "end_candidate e \<noteq> None" by blast
    have "\<forall>j<Suc k. end_candidate ((n # ns) ! j) = None"
      using False k(4) by (auto simp: nth_Cons split: nat.splits)
    with k show ?thesis by (intro exI [of _ "Suc k"]) auto
  qed
qed

lemma getComponentEndComment_eq:
  "getComponentEndComment B p (iterator_at L (int m - 1)) =
     (case find_candidate (drop m L) of
        None \<Rightarrow> Inr (None, iterator_at L (int (max m (length L))))
      | Some (e, rest) \<Rightarrow>
          (case validateEndComponentPayload B (the (end_candidate e)) p of
             Inl x \<Rightarrow> Inl x
           | Inr u \<Rightarrow> Inr (Some e, iterator_at L (int (length L - length rest) - 1))))"
proof (cases "find_candidate (drop m L)")
  case None
  from scan_exhausted [OF find_candidate_None [OF None], of B p] None show ?thesis by simp
next
  case (Some er)
  obtain e rest where er: "er = (e, rest)" by (cases er)
  from find_candidate_Some [OF Some [unfolded er]] obtain k where
    k: "k < length (drop m L)" "drop m L ! k = e" "rest = drop (Suc k) (drop m L)"
       "\<forall>j<k. end_candidate (drop m L ! j) = None" "end_candidate e \<noteq> None" by blast
  from k(1) have mk: "m + k < length L" by simp
  from k(2) mk have e: "L ! (m + k) = e" by simp
  from k(4) mk have sk: "\<forall>j<k. end_candidate (L ! (m + j)) = None" by simp
  from k(5) obtain json where j: "end_candidate e = Some json" by auto
  have len: "int (length L - length rest) - 1 = int (m + k)"
    using k(3) mk by simp
  have "getComponentEndComment B p (iterator_at L (int m - 1)) =
        getComponentEndComment B p (iterator_at L (int (m + k) - 1))"
    using mk sk by (intro scan_skips) simp_all
  also have "\<dots> = (case validateEndComponentPayload B json p of
                      Inl x \<Rightarrow> Inl x
                    | Inr u \<Rightarrow> Inr (Some (L ! (m + k)), iterator_at L (int (m + k))))"
    using mk j e by (intro scan_stop) simp_all
  finally have g: "getComponentEndComment B p (iterator_at L (int m - 1)) =
      (case validateEndComponentPayload B json p of
         Inl x \<Rightarrow> Inl x
       | Inr u \<Rightarrow> Inr (Some e, iterator_at L (int (length L - length rest) - 1)))"
    by (simp only: e len)
  show ?thesis
    by (simp only: g Some er j option.case prod.case option.sel)
qed

text \<open>
  \<^verbatim>\<open>getComponentComment\<close> at a node that is not a marker comment and at one that is.
  When it returns, the iterator is where the search for the end comment left it.
\<close>

lemma getComponentComment_not_marker:
  assumes "currentElement it = Some n" and "end_candidate n = None"
  shows "getComponentComment B d it ty = Inr (None, it)"
  using assms
  by (auto simp: getComponentComment_def end_candidate_def split: option.splits if_splits)

lemma getComponentComment_marker:
  assumes "currentElement it = Some n" and "end_candidate n = Some json"
  shows "getComponentComment B d it ty =
     (if d then Inl RootComponentOnDocument
      else case (case parseCommentPayload B json of
                   Inl e \<Rightarrow> Inl e
                 | Inr componentComment \<Rightarrow> create_for_type B ty componentComment n it) of
             Inl e \<Rightarrow> Inl (MalformedComponentComment (comment_text n))
           | Inr r \<Rightarrow> Inr r)"
  using assms
  by (auto simp: getComponentComment_def end_candidate_def assertNotDirectlyOnDocument_def
           split: option.splits if_splits)

lemma create_for_type_iterator:
  assumes "create_for_type B ty payload n it = Inr (cc, it')"
  shows "\<exists>end'. find_end B (get_prop payload ''prerenderId'') it = Inr (end', it')
           \<and> (truthy_opt (get_prop payload ''prerenderId'') \<longrightarrow> end' \<noteq> None)"
  using assms
  by (cases ty)
     (auto simp: create_for_type_def createServerComponentComment_def
                 createWebAssemblyComponentComment_def Let_def
           split: sum.splits prod.splits if_splits option.splits)


lemma getComponentEndComment_found:
  assumes "getComponentEndComment B p (iterator_at L (int i)) = Inr (Some e, it')"
  shows "\<exists>j json. i < j \<and> j < length L \<and> it' = iterator_at L (int j) \<and> L ! j = e
           \<and> (\<forall>x. i < x \<and> x < j \<longrightarrow> end_candidate (L ! x) = None)
           \<and> end_candidate e = Some json \<and> validateEndComponentPayload B json p = Inr ()"
proof -
  have idx: "int (Suc i) - 1 = int i" by simp
  note eq = getComponentEndComment_eq [of B p L "Suc i", unfolded idx]
  show ?thesis
  proof (cases "find_candidate (drop (Suc i) L)")
    case None
    with assms eq show ?thesis by (simp only: option.case) simp
  next
    case (Some er)
    obtain e0 rest where er: "er = (e0, rest)" by (cases er)
    from find_candidate_Some [OF Some [unfolded er]] obtain k where
      k: "k < length (drop (Suc i) L)" "drop (Suc i) L ! k = e0"
         "rest = drop (Suc k) (drop (Suc i) L)"
         "\<forall>j<k. end_candidate (drop (Suc i) L ! j) = None" "end_candidate e0 \<noteq> None" by blast
    from k(5) obtain json where j: "end_candidate e0 = Some json" by auto
    have eq2: "getComponentEndComment B p (iterator_at L (int i)) =
        (case validateEndComponentPayload B json p of
           Inl x \<Rightarrow> Inl x
         | Inr u \<Rightarrow> Inr (Some e0, iterator_at L (int (length L - length rest) - 1)))"
      by (simp only: eq Some er j option.case prod.case option.sel)
    show ?thesis
    proof (cases "validateEndComponentPayload B json p")
      case (Inl x)
      with assms eq2 show ?thesis by (simp only: sum.case) simp
    next
      case (Inr u)
      with assms eq2 have r: "Inr (Some e0, iterator_at L (int (length L - length rest) - 1))
                               = (Inr (Some e, it') :: error + node option \<times> ComponentCommentIterator)"
        by (simp only: sum.case)
      then have ee: "e0 = e" and it: "it' = iterator_at L (int (length L - length rest) - 1)"
        by (simp_all only: sum.inject prod.inject option.inject)
      from k(1) have lt: "Suc i + k < length L" by simp
      have pos: "int (length L - length rest) - 1 = int (Suc i + k)"
        using k(3) lt by simp
      have between: "\<forall>x. i < x \<and> x < Suc i + k \<longrightarrow> end_candidate (L ! x) = None"
      proof (intro allI impI)
        fix x assume x: "i < x \<and> x < Suc i + k"
        then have "x - Suc i < k" by arith
        with k(4) have "end_candidate (drop (Suc i) L ! (x - Suc i)) = None" by blast
        moreover have "drop (Suc i) L ! (x - Suc i) = L ! x" using x lt by simp
        ultimately show "end_candidate (L ! x) = None" by simp
      qed
      have e: "L ! (Suc i + k) = e" using k(2) lt ee by simp
      have it2: "it' = iterator_at L (int (Suc i + k))" using it pos by (simp only:)
      have v: "validateEndComponentPayload B json p = Inr ()" using Inr by simp
      have je: "end_candidate e = Some json" using j ee by simp
      have i1: "i < Suc i + k" by simp
      show ?thesis
        apply (rule exI [of _ "Suc i + k"])
        apply (rule exI [of _ json])
        apply (intro conjI)
        apply (rule i1)
        apply (rule lt)
        apply (rule it2)
        apply (rule e)
        apply (rule between)
        apply (rule je)
        apply (rule v)
        done
    qed
  qed
qed

lemma find_end_progress:
  assumes "m < length L" and "end_candidate (L ! m) = Some jm"
    and "\<forall>p. validateEndComponentPayload B jm p \<noteq> Inr ()"
    and "i < m"
    and "find_end B pr (iterator_at L (int i)) = Inr (end', it')"
    and "truthy_opt pr \<longrightarrow> end' \<noteq> None"
  shows "\<exists>j. i \<le> j \<and> j < m \<and> it' = iterator_at L (int j)"
proof (cases "truthy_opt pr")
  case False
  with assms(5) have "it' = iterator_at L (int i)"
    by (cases pr) (simp_all add: find_end_def)
  with assms(4) show ?thesis by blast
next
  case True
  then obtain p where p: "pr = Some p" "truthy p" by (cases pr) simp_all
  from True assms(6) obtain e where e: "end' = Some e" by auto
  from assms(5) p e have "getComponentEndComment B p (iterator_at L (int i)) = Inr (Some e, it')"
    by (simp add: find_end_def)
  from getComponentEndComment_found [OF this] obtain j json where
    j: "i < j" "j < length L" "it' = iterator_at L (int j)" "L ! j = e"
       "\<forall>x. i < x \<and> x < j \<longrightarrow> end_candidate (L ! x) = None"
       "end_candidate e = Some json" "validateEndComponentPayload B json p = Inr ()" by blast
  have "j < m"
  proof (rule ccontr)
    assume "\<not> j < m"
    then consider "j = m" | "m < j" by arith
    then show False
    proof cases
      case 1
      with j(4,6,7) assms(2,3) show False by auto
    next
      case 2
      with assms(4) j(5) have "end_candidate (L ! m) = None" by simp
      with assms(2) show False by simp
    qed
  qed
  with j(1,3) show ?thesis by (intro exI [of _ j]) simp
qed

lemma getComponentComment_progress:
  assumes "m < length L" and "end_candidate (L ! m) = Some jm"
    and "\<forall>p. validateEndComponentPayload B jm p \<noteq> Inr ()"
    and "i < m"
    and "getComponentComment B d (iterator_at L (int i)) ty = Inr (cc, it')"
  shows "\<exists>j. i \<le> j \<and> j < m \<and> it' = iterator_at L (int j)"
proof -
  from assms(1,4) have cur: "currentElement (iterator_at L (int i)) = Some (L ! i)"
    by (simp add: currentElement_at)
  show ?thesis
  proof (cases "end_candidate (L ! i)")
    case None
    from getComponentComment_not_marker [OF cur None, of B d ty] assms(5)
    have "it' = iterator_at L (int i)" by simp
    with assms(4) show ?thesis by blast
  next
    case (Some json)
    from getComponentComment_marker [OF cur Some, of B d ty] assms(5)
    obtain payload where "create_for_type B ty payload (L ! i) (iterator_at L (int i)) = Inr (cc, it')"
      by (auto split: if_splits sum.splits)
    from create_for_type_iterator [OF this] obtain end' where
      "find_end B (get_prop payload ''prerenderId'') (iterator_at L (int i)) = Inr (end', it')"
      "truthy_opt (get_prop payload ''prerenderId'') \<longrightarrow> end' \<noteq> None" by blast
    from find_end_progress [OF assms(1-4) this] show ?thesis .
  qed
qed

text \<open>
  One turn of the loop of \<^verbatim>\<open>resolveComponentComments\<close>. A marker at which
  \<^verbatim>\<open>getComponentComment\<close> fails and whose payload cannot pass for an end comment makes
  the scan of its list fail from every earlier position: no search for an end
  comment gets past it.
\<close>

lemma resolve_loop_at:
  assumes "i < length L"
  shows "resolve_loop B d ty dir (iterator_at L (int i - 1)) acc =
     (case getComponentComment B d (iterator_at L (int i)) ty of
        Inl e \<Rightarrow> Inl e
      | Inr (componentComment, it') \<Rightarrow>
          (case componentComment of
             Some c \<Rightarrow> resolve_loop B d ty dir it' (acc @ [c])
           | None \<Rightarrow>
               if dir then resolve_loop B d ty dir it' acc
               else (case currentElement it' of
                       None \<Rightarrow> Inl TypeError
                     | Some current \<Rightarrow>
                         if hasChildNodes current
                         then (case resolveComponentComments B (is_document current)
                                      (childNodes_of current) ty False of
                                 Inl e \<Rightarrow> Inl e
                               | Inr childResults \<Rightarrow>
                                   resolve_loop B d ty dir it' (acc @ childResults))
                         else resolve_loop B d ty dir it' acc)))"
  using assms
  by (subst resolve_loop.simps) (simp add: iterator_next_at currentElement_at)

lemma resolve_loop_end:
  assumes "length L \<le> i"
  shows "resolve_loop B d ty dir (iterator_at L (int i - 1)) acc = Inr acc"
  using assms
  by (subst resolve_loop.simps) (simp add: iterator_next_at)

lemma scan_fails_before:
  assumes "m < length L" and "end_candidate (L ! m) = Some jm"
    and "\<forall>p. validateEndComponentPayload B jm p \<noteq> Inr ()"
    and "\<exists>e. getComponentComment B d (iterator_at L (int m)) ty = Inl e"
  shows "i \<le> m \<Longrightarrow> \<exists>e. resolve_loop B d ty dir (iterator_at L (int i - 1)) acc = Inl e"
proof (induction "m - i" arbitrary: i acc rule: less_induct)
  case less
  from less.prems assms(1) have lt: "i < length L" by simp
  note unfold = resolve_loop_at [OF lt, of B d ty dir acc]
  show ?case
  proof (cases "getComponentComment B d (iterator_at L (int i)) ty")
    case (Inl e)
    then show ?thesis by (subst unfold) simp
  next
    case (Inr r)
    obtain cc it' where r: "r = (cc, it')" by (cases r)
    from Inr assms(4) have "i \<noteq> m" by auto
    with less.prems have im: "i < m" by simp
    from getComponentComment_progress [OF assms(1-3) im Inr [unfolded r]] obtain j where
      j: "i \<le> j" "j < m" "it' = iterator_at L (int j)" by blast
    have IH: "\<exists>e. resolve_loop B d ty dir it' acc' = Inl e" for acc'
      using less.hyps [of "Suc j" acc'] j by simp
    show ?thesis
    proof (cases cc)
      case (Some c)
      with Inr r IH [of "acc @ [c]"] show ?thesis by (subst unfold) simp
    next
      case None
      show ?thesis
      proof (cases dir)
        case True
        with None Inr r IH [of acc] show ?thesis by (subst unfold) simp
      next
        case False
        show ?thesis
        proof (cases "currentElement it'")
          case no_current: None
          with None False Inr r show ?thesis by (subst unfold) simp
        next
          case (Some current)
          show ?thesis
          proof (cases "hasChildNodes current")
            case no_children: False
            with None False Some Inr r IH [of acc] show ?thesis by (subst unfold) simp
          next
            case True
            show ?thesis
            proof (cases "resolveComponentComments B (is_document current) (childNodes_of current)
                            ty False")
              case (Inl e)
              with None False Some True Inr r show ?thesis
                by (subst unfold) (simp del: resolveComponentComments.simps)
            next
              case children: (Inr childResults)
              with None False Some True Inr r IH [of "acc @ childResults"] show ?thesis
                by (subst unfold) (simp del: resolveComponentComments.simps)
            qed
          qed
        qed
      qed
    qed
  qed
qed

text \<open>
  The scan only fails with one of the two errors of \<^verbatim>\<open>getComponentComment\<close>: the
  current element is never \<^verbatim>\<open>undefined\<close> where the loop reads it.
\<close>

lemma getComponentComment_error:
  "getComponentComment B d it ty = Inl e \<Longrightarrow> is_scan_error e"
  by (auto simp: getComponentComment_def assertNotDirectlyOnDocument_def
           split: option.splits if_splits sum.splits)

lemma getComponentEndComment_current:
  "getComponentEndComment B p it = Inr (Some e, it') \<Longrightarrow> currentElement it' = Some e"
proof (induction B p it rule: getComponentEndComment.induct)
  case (1 B prerenderedId iterator)
  obtain b it1 where nx: "iterator_next iterator = (b, it1)"
    by (cases "iterator_next iterator")
  note IH = "1.IH" [OF nx [symmetric]]
  from "1.prems" nx show ?case
    apply (subst (asm) getComponentEndComment.simps)
    apply (simp split: if_splits option.splits sum.splits)
    using IH
    apply (auto split: if_splits option.splits sum.splits)
    done
qed

lemma find_end_current:
  assumes "find_end B pr it = Inr (end', it')" and "truthy_opt pr \<longrightarrow> end' \<noteq> None"
    and "currentElement it = Some n"
  shows "currentElement it' \<noteq> None"
proof (cases "truthy_opt pr")
  case False
  with assms(1) have "it' = it" by (cases pr) (simp_all add: find_end_def)
  with assms(3) show ?thesis by simp
next
  case True
  then obtain p where p: "pr = Some p" "truthy p" by (cases pr) simp_all
  from True assms(2) obtain e where e: "end' = Some e" by auto
  from assms(1) p e have "getComponentEndComment B p it = Inr (Some e, it')"
    by (simp add: find_end_def)
  from getComponentEndComment_current [OF this] show ?thesis by simp
qed

lemma getComponentComment_current:
  assumes "getComponentComment B d it ty = Inr (cc, it')" and "currentElement it = Some n"
  shows "currentElement it' \<noteq> None"
proof (cases "end_candidate n")
  case None
  from getComponentComment_not_marker [OF assms(2) None, of B d ty] assms
  show ?thesis by simp
next
  case (Some json)
  from getComponentComment_marker [OF assms(2) Some, of B d ty] assms(1)
  obtain payload where "create_for_type B ty payload n it = Inr (cc, it')"
    by (auto split: if_splits sum.splits)
  from create_for_type_iterator [OF this] obtain end' where
    "find_end B (get_prop payload ''prerenderId'') it = Inr (end', it')"
    "truthy_opt (get_prop payload ''prerenderId'') \<longrightarrow> end' \<noteq> None" by blast
  from find_end_current [OF this assms(2)] show ?thesis .
qed

lemma resolve_errors:
  "resolve_loop B d ty dir it acc = Inl e \<Longrightarrow> is_scan_error e"
  "resolveComponentComments B d nodes ty dir = Inl e' \<Longrightarrow> is_scan_error e'"
proof (induction B d ty dir it acc and B d nodes ty dir arbitrary: e and e'
       rule: resolve_loop_resolveComponentComments.induct)
  case (1 B d ty dir it acc)
  obtain b it1 where nx: "iterator_next it = (b, it1)"
    by (cases "iterator_next it")
  note step = "1.prems"(1) [unfolded resolve_loop.simps [of B d ty dir it acc] nx, simplified]
  show ?case
  proof (cases "b \<and> currentElement it1 \<noteq> None")
    case False
    with step show ?thesis by (auto split: if_splits option.splits)
  next
    case True
    then obtain node where b: "b" and cur: "currentElement it1 = Some node" by auto
    show ?thesis
    proof (cases "getComponentComment B d it1 ty")
      case (Inl x)
      with step b cur have "e = x" by simp
      with getComponentComment_error [OF Inl] show ?thesis by simp
    next
      case (Inr r)
      obtain cc it2 where r: "r = (cc, it2)" by (cases r)
      note gc = Inr [unfolded r]
      from getComponentComment_current [OF gc cur] obtain current where
        cur2: "currentElement it2 = Some current" by auto
      show ?thesis
      proof (cases cc)
        case (Some c)
        with step b cur gc have r: "resolve_loop B d ty dir it2 (acc @ [c]) = Inl e" by simp
        from "1.IH"(5) [OF nx [symmetric] _ cur gc refl Some r] b show ?thesis by simp
      next
        case None
        show ?thesis
        proof (cases dir)
          case True
          with step b cur gc None have r: "resolve_loop B d ty dir it2 acc = Inl e" by simp
          from "1.IH"(1) [OF nx [symmetric] _ cur gc refl None True r] b
          show ?thesis by simp
        next
          case False
          show ?thesis
          proof (cases "hasChildNodes current")
            case True
            show ?thesis
            proof (cases "resolveComponentComments B (is_document current) (childNodes_of current)
                            ty False")
              case (Inl x)
              with step b cur gc None False cur2 True have "e = x"
                by (simp del: resolveComponentComments.simps)
              with "1.IH"(2) [OF nx [symmetric] _ cur gc refl None False cur2 True Inl] b
              show ?thesis by simp
            next
              case ch: (Inr childResults)
              with step b cur gc None False cur2 True have
                r: "resolve_loop B d ty dir it2 (acc @ childResults) = Inl e"
                by (simp del: resolveComponentComments.simps)
              from "1.IH"(3) [OF nx [symmetric] _ cur gc refl None False cur2 True ch r] b
              show ?thesis by simp
            qed
          next
            case nochildren: False
            with step b cur gc None False cur2 have r: "resolve_loop B d ty dir it2 acc = Inl e"
              by (auto split: sum.splits)
            from "1.IH"(4) [OF nx [symmetric] _ cur gc refl None False cur2 nochildren r] b
            show ?thesis by simp
          qed
        qed
      qed
    qed
  qed
next
  case (2 B d nodes ty dir)
  from "2.prems" have "resolve_loop B d ty dir (new_ComponentCommentIterator nodes) [] = Inl e'"
    by simp
  from "2.IH" [OF this] show ?case by simp
qed

text \<open>
  The payload of a start marker that carries a \<open>prerenderId\<close> has a \<open>type\<close> as well, so
  it has more than one key and is no end comment.
\<close>

lemma get_prop_keys: "get_prop p k = Some v \<Longrightarrow> k \<in> set (Object_keys p)"
  by (auto simp: get_prop_def Object_keys_def dest!: map_of_SomeD intro: rev_image_eqI)

lemma start_payload_not_end:
  assumes "parseCommentPayload B json = Inr payload" and "get_prop payload ''prerenderId'' = Some v"
  shows "validateEndComponentPayload B json p \<noteq> Inr ()"
proof -
  from assms(1) have parse: "JSON_parse B json = Some payload"
    and "get_prop payload ''type'' \<noteq> None"
    by (auto simp: parseCommentPayload_def Let_def split: option.splits if_splits)
  then obtain t where "get_prop payload ''type'' = Some t" by auto
  from get_prop_keys [OF this] get_prop_keys [OF assms(2)]
  have "{''type'', ''prerenderId''} \<subseteq> set (Object_keys payload)" by simp
  then have "card {''type'', ''prerenderId''} \<le> card (set (Object_keys payload))"
    by (intro card_mono) simp_all
  moreover have "card (set (Object_keys payload)) = length (Object_keys payload)"
    unfolding Object_keys_def by (rule distinct_card) simp
  ultimately have "2 \<le> length (Object_keys payload)" by simp
  with parse show ?thesis by (simp add: validateEndComponentPayload_def)
qed

lemma discoverComponents_fails:
  assumes "resolveComponentComments B (is_document parent) (childNodes_of parent) ty dir = Inl e"
  shows "discoverComponents B g parent ty dir = Inl e"
proof -
  have "childNodes_of parent \<noteq> []"
    using assms resolveComponentComments_Nil [of B "is_document parent" ty dir] by auto
  with assms show ?thesis
    by (cases ty)
       (simp_all add: discoverComponents_def hasChildNodes_def discoverComponentsFromNodeList_def
          discoverServerComponents_def discoverWebAssemblyComponents_def
          del: resolveComponentComments.simps)
qed

lemma marker_scan_fails:
  assumes "m < length L" and "end_candidate (L ! m) = Some json"
    and "parseCommentPayload B json = Inr payload" and "get_prop payload ''prerenderId'' = Some v"
    and "getComponentComment B d (iterator_at L (int m)) ty = Inl e0"
  shows "\<exists>e. resolveComponentComments B d L ty dir = Inl e \<and> is_scan_error e"
proof -
  have "\<forall>p. validateEndComponentPayload B json p \<noteq> Inr ()"
    using start_payload_not_end [OF assms(3,4)] by blast
  from scan_fails_before [OF assms(1,2) this, of d ty 0 dir "[]"] assms(5)
  obtain e where "resolve_loop B d ty dir (iterator_at L (- 1)) [] = Inl e" by auto
  then have e: "resolveComponentComments B d L ty dir = Inl e"
    by (simp add: new_iterator_at)
  from resolve_errors(2) [OF e] e show ?thesis by blast
qed

lemma marker_fails_at:
  assumes "m < length nodes" and "nodes ! m = Comment text"
    and "blazorCommentRegularExpression_exec text = Some json" and "json \<noteq> []"
    and "parseCommentPayload B json = Inr payload"
    and "\<exists>e. create_for_type B ty payload (Comment text) (iterator_at nodes (int m)) = Inl e"
  shows "end_candidate (nodes ! m) = Some json"
    and "getComponentComment B d (iterator_at nodes (int m)) ty =
           Inl (if d then RootComponentOnDocument else MalformedComponentComment text)"
    and "resolve_loop B d ty dir (iterator_at nodes (int m - 1)) result =
           Inl (if d then RootComponentOnDocument else MalformedComponentComment text)"
proof -
  show c: "end_candidate (nodes ! m) = Some json"
    using assms(2-4) marker_text_not_empty [OF assms(3)] by (simp add: end_candidate_def)
  from assms(1) have cur: "currentElement (iterator_at nodes (int m)) = Some (nodes ! m)"
    by (simp add: currentElement_at)
  from assms(6) obtain e where
    e: "create_for_type B ty payload (Comment text) (iterator_at nodes (int m)) = Inl e" by blast
  show g: "getComponentComment B d (iterator_at nodes (int m)) ty =
           Inl (if d then RootComponentOnDocument else MalformedComponentComment text)"
    using getComponentComment_marker [OF cur c, of B d ty] assms(2,5) e by simp
  show "resolve_loop B d ty dir (iterator_at nodes (int m - 1)) result =
           Inl (if d then RootComponentOnDocument else MalformedComponentComment text)"
    using g by (subst resolve_loop_at [OF assms(1)]) simp
qed

lemma create_for_type_find_end_fails:
  assumes "find_end B (get_prop payload ''prerenderId'') it = Inl e"
  shows "createServerComponentComment B payload start it = Inl e"
    and "createWebAssemblyComponentComment B payload start it = Inl e"
    and "create_for_type B ty payload start it = Inl e"
proof -
  show s: "createServerComponentComment B payload start it = Inl e"
    using assms by (simp add: createServerComponentComment_def Let_def)
  show w: "createWebAssemblyComponentComment B payload start it = Inl e"
    using assms by (simp add: createWebAssemblyComponentComment_def Let_def)
  show "create_for_type B ty payload start it = Inl e"
    using s w by (cases ty) (simp_all add: create_for_type_def)
qed

lemma skipped_region_example:
  \<open>discoverComponents sample_builtins 1
     (Element
        [Comment ''Blazor:{"type":"server","sequence":2,"descriptor":"C","prerenderId":"X"}'',
         Element
           [Comment ''Blazor:{"type":"server","sequence":2,"descriptor":"C","prerenderId":"X"}'',
            Comment ''Blazor:{"prerenderId":"Y"}''],
         Comment ''Blazor:{"prerenderId":"X"}''])
     server False =
   Inr ([Server \<lparr>start_sd =
                    Comment ''Blazor:{"type":"server","sequence":2,"descriptor":"C","prerenderId":"X"}'',
                  end_sd = Some (Comment ''Blazor:{"prerenderId":"X"}''),
                  sequence_sd = 2, descriptor_sd = JString ''C''\<rparr>], 1)\<close>
  by code_simp

text \<open>
  C8 (amended). Take a start marker at any position of a sibling list: a comment
  that matches the marker pattern, whose payload parses with a valid type and
  carries a truthy \<open>prerenderId\<close> (a value that is falsy, such as the empty string,
  asks for no end comment). If no later sibling is a marker comment, the search
  for the end comment runs to the end of the list and both \<open>create\<close> functions
  throw the end-comment-not-found error instead of returning a comment. That error
  does not leave the scan: \<open>getComponentComment\<close> catches it and throws the
  malformed-component-comment error carrying the start marker's text, so a scan
  that reaches the marker fails with that error (with the document-root error when
  the siblings' parent is the document), and discovery started at the parent of
  these siblings fails with one of these two errors and returns no descriptor,
  whatever precedes the marker in the list.
\<close>

theorem C8_unterminated_marker_fails:
  assumes "m < length nodes" and "nodes ! m = Comment text"
    and "blazorCommentRegularExpression_exec text = Some json" and "json \<noteq> []"
    and "parseCommentPayload B json = Inr payload"
    and "truthy_opt (get_prop payload ''prerenderId'')"
    and "\<forall>n\<in>set (drop (Suc m) nodes). end_candidate n = None"
    and "childNodes_of parent = nodes"
  shows "createServerComponentComment B payload (Comment text) (iterator_at nodes (int m)) =
           Inl EndCommentNotFound
         \<and> createWebAssemblyComponentComment B payload (Comment text) (iterator_at nodes (int m)) =
           Inl EndCommentNotFound
         \<and> resolve_loop B parentIsDocument ty directChildrenOnly (iterator_at nodes (int m - 1)) result =
           Inl (if parentIsDocument then RootComponentOnDocument else MalformedComponentComment text)
         \<and> (\<exists>e. discoverComponents B globalId parent ty directChildrenOnly = Inl e
                \<and> is_scan_error e)"
proof -
  note fe = find_end_exhausted [OF assms(6,7), of B]
  have s: "createServerComponentComment B payload (Comment text) (iterator_at nodes (int m)) =
           Inl EndCommentNotFound"
    using fe assms(6) by (simp add: createServerComponentComment_def Let_def)
  have w: "createWebAssemblyComponentComment B payload (Comment text) (iterator_at nodes (int m)) =
           Inl EndCommentNotFound"
    using fe assms(6) by (simp add: createWebAssemblyComponentComment_def Let_def)
  have c: "\<exists>e. create_for_type B ty payload (Comment text) (iterator_at nodes (int m)) = Inl e"
    using s w by (cases ty) (simp_all add: create_for_type_def)
  note at = marker_fails_at [OF assms(1-5) c]
  from assms(6) obtain v where v: "get_prop payload ''prerenderId'' = Some v"
    by (cases "get_prop payload ''prerenderId''") simp_all
  from marker_scan_fails [OF assms(1) at(1) assms(5) v at(2) [of "is_document parent"],
         of directChildrenOnly]
  obtain e where "resolveComponentComments B (is_document parent) nodes ty directChildrenOnly = Inl e"
    and se: "is_scan_error e" by blast
  with assms(8) have "discoverComponents B globalId parent ty directChildrenOnly = Inl e"
    by (intro discoverComponents_fails) simp
  with se have d: "\<exists>e. discoverComponents B globalId parent ty directChildrenOnly = Inl e
                \<and> is_scan_error e" by blast
  from s w at(3) [of parentIsDocument directChildrenOnly result] d show ?thesis by blast
qed

theorem C8_unterminated_marker_fails_witness:
  \<open>createServerComponentComment sample_builtins
        [(''type'', JString ''server''), (''sequence'', JNumber 2), (''descriptor'', JString ''C''),
         (''prerenderId'', JString ''X'')]
        (Comment ''Blazor:{"type":"server","sequence":2,"descriptor":"C","prerenderId":"X"}'')
        (iterator_at
          [Comment ''Blazor:{"type":"server","sequence":0,"descriptor":"A"}'',
           Comment ''Blazor:{"type":"server","sequence":2,"descriptor":"C","prerenderId":"X"}'',
           Text ''hello'',
           Element [Comment ''Blazor:{"prerenderId":"X"}'']] 1) =
     Inl EndCommentNotFound
   \<and> resolve_loop sample_builtins False server False
     (iterator_at
        [Comment ''Blazor:{"type":"server","sequence":0,"descriptor":"A"}'',
         Comment ''Blazor:{"type":"server","sequence":2,"descriptor":"C","prerenderId":"X"}'',
         Text ''hello'',
         Element [Comment ''Blazor:{"prerenderId":"X"}'']] 0) [] =
     Inl (MalformedComponentComment
            ''Blazor:{"type":"server","sequence":2,"descriptor":"C","prerenderId":"X"}'')
   \<and> (\<exists>e. discoverComponents sample_builtins 1
             (Element
               [Comment ''Blazor:{"type":"server","sequence":0,"descriptor":"A"}'',
                Comment ''Blazor:{"type":"server","sequence":2,"descriptor":"C","prerenderId":"X"}'',
                Text ''hello'',
                Element [Comment ''Blazor:{"prerenderId":"X"}'']])
             server False = Inl e \<and> is_scan_error e)
   \<and> discoverComponents sample_builtins 1
        (Element
          [Comment ''Blazor:{"type":"server","sequence":0,"descriptor":"A"}'',
           Comment ''Blazor:{"type":"server","sequence":2,"descriptor":"C","prerenderId":"X"}'',
           Text ''hello'',
           Element [Comment ''Blazor:{"prerenderId":"X"}'']])
        server False =
     Inl (MalformedComponentComment
            ''Blazor:{"type":"server","sequence":2,"descriptor":"C","prerenderId":"X"}'')\<close>
proof -
  let ?text = \<open>''Blazor:{"type":"server","sequence":2,"descriptor":"C","prerenderId":"X"}''\<close>
  let ?json = \<open>''{"type":"server","sequence":2,"descriptor":"C","prerenderId":"X"}''\<close>
  let ?payload = "[(''type'', JString ''server''), (''sequence'', JNumber 2),
                   (''descriptor'', JString ''C''), (''prerenderId'', JString ''X'')]"
  let ?nodes = \<open>[Comment ''Blazor:{"type":"server","sequence":0,"descriptor":"A"}'',
         Comment ?text, Text ''hello'', Element [Comment ''Blazor:{"prerenderId":"X"}'']]\<close>
  have 1: "1 < length ?nodes" by simp
  have 2: "?nodes ! 1 = Comment ?text" by simp
  have 3: "blazorCommentRegularExpression_exec ?text = Some ?json" by code_simp
  have 4: "?json \<noteq> []" by simp
  have 5: "parseCommentPayload sample_builtins ?json = Inr ?payload" by code_simp
  have 6: "truthy_opt (get_prop ?payload ''prerenderId'')" by (simp add: get_prop_def)
  have 7: "\<forall>n\<in>set (drop (Suc 1) ?nodes). end_candidate n = None"
    by (simp add: end_candidate_def)
  have 8: "childNodes_of (Element ?nodes) = ?nodes" by simp
  have 9: \<open>discoverComponents sample_builtins 1 (Element ?nodes) server False =
     Inl (MalformedComponentComment ?text)\<close>
    by code_simp
  from C8_unterminated_marker_fails [OF 1 2 3 4 5 6 7 8, of False server False "[]" 1] 9
  show ?thesis by simp
qed

text \<open>
  C8 as stated fails twice. With an unterminated marker, the error that discovery
  reports is the malformed-component-comment error, not the end-comment-not-found
  error thrown inside; and a marker that carries the \<open>prerenderId\<close> \<^verbatim>\<open>""\<close> and has
  no end comment yields a descriptor.
\<close>

theorem C8_reported_error_counterexample:
  \<open>discoverComponents sample_builtins 1
        (Element
          [Comment ''Blazor:{"type":"server","sequence":2,"descriptor":"C","prerenderId":"X"}'',
           Text ''hello''])
        server False =
     Inl (MalformedComponentComment
            ''Blazor:{"type":"server","sequence":2,"descriptor":"C","prerenderId":"X"}'')
   \<and> discoverComponents sample_builtins 1
        (Element
          [Comment ''Blazor:{"type":"server","sequence":2,"descriptor":"C","prerenderId":"X"}'',
           Text ''hello''])
        server False \<noteq> Inl EndCommentNotFound
   \<and> get_prop [(''type'', JString ''server''), (''sequence'', JNumber 3), (''descriptor'', JString ''D''),
                (''prerenderId'', JString [])] ''prerenderId'' = Some (JString [])
   \<and> discoverComponents sample_builtins 1
        (Element
          [Comment ''Blazor:{"type":"server","sequence":3,"descriptor":"D","prerenderId":""}'',
           Text ''hello''])
        server False =
     Inr ([Server \<lparr>start_sd =
                      Comment ''Blazor:{"type":"server","sequence":3,"descriptor":"D","prerenderId":""}'',
                    end_sd = None, sequence_sd = 3, descriptor_sd = JString ''D''\<rparr>], 1)\<close>
  by code_simp

text \<open>
  C2 (amended). The search for the end comment of a start marker (valid type,
  truthy \<open>prerenderId\<close>) passes over siblings that are not marker comments. At the
  first later sibling that is one, a payload whose \<open>prerenderId\<close> is not the start
  marker's id is not passed over: validation throws (an invalid end comment when
  \<open>prerenderId\<close> is not the only key, a missing value when it is falsy, the id
  mismatch otherwise) and the search ends with that error. A scan that reaches the
  start marker then fails with the malformed-component-comment error at that
  marker (the document-root error under a document), and discovery started at the
  parent of these siblings fails with one of these two errors. Discovery started
  higher up need not reach these siblings: it does not descend into a node that
  stands between a start marker and its end comment (\<open>skipped_region_example\<close>).
\<close>

theorem C2_mismatched_end_marker_fails:
  assumes "Suc s + k < length nodes" and "nodes ! s = Comment text"
    and "blazorCommentRegularExpression_exec text = Some start_json" and "start_json \<noteq> []"
    and "parseCommentPayload B start_json = Inr start_payload"
    and "get_prop start_payload ''prerenderId'' = Some p" and "truthy p"
    and "\<forall>j<k. end_candidate (nodes ! (Suc s + j)) = None"
    and "end_candidate (nodes ! (Suc s + k)) = Some json"
    and "JSON_parse B json = Some payload"
    and "get_prop payload ''prerenderId'' = Some v" and "\<not> strict_equals v p"
    and "childNodes_of parent = nodes"
  shows "getComponentEndComment B p (iterator_at nodes (int s)) =
           Inl (if length (Object_keys payload) \<noteq> 1 then InvalidEndComment
                else if \<not> truthy v then EndCommentWithoutPrerenderId
                else EndCommentIdMismatch p v)
         \<and> resolve_loop B parentIsDocument ty directChildrenOnly (iterator_at nodes (int s - 1)) result =
           Inl (if parentIsDocument then RootComponentOnDocument else MalformedComponentComment text)
         \<and> (\<exists>e. discoverComponents B globalId parent ty directChildrenOnly = Inl e
                \<and> is_scan_error e)"
proof -
  let ?err = "if length (Object_keys payload) \<noteq> 1 then InvalidEndComment
              else if \<not> truthy v then EndCommentWithoutPrerenderId
              else EndCommentIdMismatch p v"
  have "getComponentEndComment B p (iterator_at nodes (int (Suc s) - 1)) =
        getComponentEndComment B p (iterator_at nodes (int (Suc s + k) - 1))"
    using assms(1,8) by (intro scan_skips) simp_all
  also have "\<dots> = (case validateEndComponentPayload B json p of
                      Inl e \<Rightarrow> Inl e
                    | Inr u \<Rightarrow> Inr (Some (nodes ! (Suc s + k)), iterator_at nodes (int (Suc s + k))))"
    using assms(1,9) by (rule scan_stop)
  also have "validateEndComponentPayload B json p = Inl ?err"
    using assms(10-12) by (simp add: validateEndComponentPayload_def)
  finally have g: "getComponentEndComment B p (iterator_at nodes (int s)) = Inl ?err" by simp
  then have fe: "find_end B (get_prop start_payload ''prerenderId'') (iterator_at nodes (int s)) =
                 Inl ?err"
    using assms(6,7) by (simp add: find_end_def)
  have c: "\<exists>e. create_for_type B ty start_payload (Comment text) (iterator_at nodes (int s)) = Inl e"
    using create_for_type_find_end_fails(3) [OF fe] by blast
  from assms(1) have lt: "s < length nodes" by simp
  note at = marker_fails_at [OF lt assms(2-5) c]
  from marker_scan_fails [OF lt at(1) assms(5,6) at(2) [of "is_document parent"],
         of directChildrenOnly]
  obtain e where "resolveComponentComments B (is_document parent) nodes ty directChildrenOnly = Inl e"
    and se: "is_scan_error e" by blast
  with assms(13) have "discoverComponents B globalId parent ty directChildrenOnly = Inl e"
    by (intro discoverComponents_fails) simp
  with se have d: "\<exists>e. discoverComponents B globalId parent ty directChildrenOnly = Inl e
                \<and> is_scan_error e" by blast
  from g at(3) [of parentIsDocument directChildrenOnly result] d show ?thesis by blast
qed

theorem C2_mismatched_end_marker_fails_witness:
  \<open>getComponentEndComment sample_builtins (JString ''X'')
     (iterator_at
        [Comment ''Blazor:{"type":"server","sequence":2,"descriptor":"C","prerenderId":"X"}'',
         Text ''hello'',
         Comment ''Blazor:{"prerenderId":"Y"}'',
         Comment ''Blazor:{"prerenderId":"X"}''] 0) =
     Inl (EndCommentIdMismatch (JString ''X'') (JString ''Y''))
   \<and> resolve_loop sample_builtins False server False
     (iterator_at
        [Comment ''Blazor:{"type":"server","sequence":2,"descriptor":"C","prerenderId":"X"}'',
         Text ''hello'',
         Comment ''Blazor:{"prerenderId":"Y"}'',
         Comment ''Blazor:{"prerenderId":"X"}''] (- 1)) [] =
     Inl (MalformedComponentComment
            ''Blazor:{"type":"server","sequence":2,"descriptor":"C","prerenderId":"X"}'')
   \<and> (\<exists>e. discoverComponents sample_builtins 1
             (Element
               [Comment ''Blazor:{"type":"server","sequence":2,"descriptor":"C","prerenderId":"X"}'',
                Text ''hello'',
                Comment ''Blazor:{"prerenderId":"Y"}'',
                Comment ''Blazor:{"prerenderId":"X"}''])
             server False = Inl e \<and> is_scan_error e)\<close>
proof -
  let ?text = \<open>''Blazor:{"type":"server","sequence":2,"descriptor":"C","prerenderId":"X"}''\<close>
  let ?json = \<open>''{"type":"server","sequence":2,"descriptor":"C","prerenderId":"X"}''\<close>
  let ?payload = "[(''type'', JString ''server''), (''sequence'', JNumber 2),
                   (''descriptor'', JString ''C''), (''prerenderId'', JString ''X'')]"
  let ?nodes = \<open>[Comment ?text, Text ''hello'', Comment ''Blazor:{"prerenderId":"Y"}'',
                 Comment ''Blazor:{"prerenderId":"X"}'']\<close>
  have 1: "Suc 0 + 1 < length ?nodes" by simp
  have 2: "?nodes ! 0 = Comment ?text" by simp
  have 3: "blazorCommentRegularExpression_exec ?text = Some ?json" by code_simp
  have 4: "?json \<noteq> []" by simp
  have 5: "parseCommentPayload sample_builtins ?json = Inr ?payload" by code_simp
  have 6: "get_prop ?payload ''prerenderId'' = Some (JString ''X'')" by (simp add: get_prop_def)
  have 7: "truthy (JString ''X'')" by simp
  have 8: "\<forall>j<1. end_candidate (?nodes ! (Suc 0 + j)) = None"
    by (simp add: end_candidate_def)
  have 9: \<open>end_candidate (?nodes ! (Suc 0 + 1)) = Some ''{"prerenderId":"Y"}''\<close>
    by code_simp
  have 10: \<open>JSON_parse sample_builtins ''{"prerenderId":"Y"}'' = Some [(''prerenderId'', JString ''Y'')]\<close>
    by code_simp
  have 11: "get_prop [(''prerenderId'', JString ''Y'')] ''prerenderId'' = Some (JString ''Y'')"
    by (simp add: get_prop_def)
  have 12: "\<not> strict_equals (JString ''Y'') (JString ''X'')" by simp
  have 13: "childNodes_of (Element ?nodes) = ?nodes" by simp
  from C2_mismatched_end_marker_fails [OF 1 2 3 4 5 6 7 8 9 10 11 12 13,
         of False server False "[]" 1]
  show ?thesis by (simp add: Object_keys_def)
qed

text \<open>
  C2 as stated fails: with an end comment for \<open>Y\<close> before the one for \<open>X\<close>, the
  search started for \<open>X\<close> throws at the first, and discovery fails instead of
  pairing the start marker with the second.
\<close>

theorem C2_mismatched_id_not_ignored_counterexample:
  \<open>getComponentEndComment sample_builtins (JString ''X'')
     (iterator_at
        [Comment ''Blazor:{"type":"server","sequence":2,"descriptor":"C","prerenderId":"X"}'',
         Comment ''Blazor:{"prerenderId":"Y"}'',
         Comment ''Blazor:{"prerenderId":"X"}''] 0) =
     Inl (EndCommentIdMismatch (JString ''X'') (JString ''Y''))
   \<and> discoverComponents sample_builtins 1
        (Element
          [Comment ''Blazor:{"type":"server","sequence":2,"descriptor":"C","prerenderId":"X"}'',
           Comment ''Blazor:{"prerenderId":"Y"}'',
           Comment ''Blazor:{"prerenderId":"X"}''])
        server False =
     Inl (MalformedComponentComment
            ''Blazor:{"type":"server","sequence":2,"descriptor":"C","prerenderId":"X"}'')\<close>
  by code_simp

section \<open>Properties of discovery\<close>

text \<open>Every comment resolved for a type is of that type.\<close>

lemma getComponentComment_type:
  "getComponentComment B d it ty = Inr (Some c, it') \<Longrightarrow> comment_type c = ty"
  by (auto simp: getComponentComment_def create_for_type_def
           split: option.splits if_splits sum.splits ComponentType.splits prod.splits)

lemma resolve_types:
  "resolve_loop B d ty dir it acc = Inr res \<Longrightarrow> (\<forall>c\<in>set acc. comment_type c = ty)
     \<Longrightarrow> (\<forall>c\<in>set res. comment_type c = ty)"
  "resolveComponentComments B d nodes ty dir = Inr res' \<Longrightarrow> (\<forall>c\<in>set res'. comment_type c = ty)"
proof (induction B d ty dir it acc and B d nodes ty dir arbitrary: res and res'
       rule: resolve_loop_resolveComponentComments.induct)
  case (1 B d ty dir it acc)
  obtain b it1 where nx: "iterator_next it = (b, it1)"
    by (cases "iterator_next it")
  note step = "1.prems"(1) [unfolded resolve_loop.simps [of B d ty dir it acc] nx, simplified]
  show ?case
  proof (cases "b \<and> currentElement it1 \<noteq> None")
    case False
    with step "1.prems"(2) show ?thesis by (auto split: if_splits option.splits)
  next
    case True
    then obtain node where b: "b" and cur: "currentElement it1 = Some node" by auto
    from step b cur obtain cc it2 where gc: "getComponentComment B d it1 ty = Inr (cc, it2)"
      by (auto split: sum.splits)
    show ?thesis
    proof (cases cc)
      case (Some c)
      with step b cur gc have r: "resolve_loop B d ty dir it2 (acc @ [c]) = Inr res" by simp
      have "comment_type c = ty" using gc Some getComponentComment_type by blast
      with "1.prems"(2) have "\<forall>x\<in>set (acc @ [c]). comment_type x = ty" by simp
      from "1.IH"(5) [OF nx [symmetric] _ cur gc refl Some r this] b show ?thesis by simp
    next
      case None
      show ?thesis
      proof (cases dir)
        case True
        with step b cur gc None have r: "resolve_loop B d ty dir it2 acc = Inr res" by simp
        from "1.IH"(1) [OF nx [symmetric] _ cur gc refl None True r "1.prems"(2)] b
        show ?thesis by simp
      next
        case False
        with step b cur gc None obtain current where cur2: "currentElement it2 = Some current"
          by (auto split: option.splits)
        show ?thesis
        proof (cases "hasChildNodes current")
          case True
          with step b cur gc None False cur2 obtain childResults where
            ch: "resolveComponentComments B (is_document current) (childNodes_of current) ty False
                   = Inr childResults"
            and r: "resolve_loop B d ty dir it2 (acc @ childResults) = Inr res"
            by (auto split: sum.splits)
          from "1.IH"(2) [OF nx [symmetric] _ cur gc refl None False cur2 True ch] b
          have "\<forall>c\<in>set childResults. comment_type c = ty" by simp
          with "1.prems"(2) have "\<forall>x\<in>set (acc @ childResults). comment_type x = ty" by auto
          from "1.IH"(3) [OF nx [symmetric] _ cur gc refl None False cur2 True ch r this] b
          show ?thesis by simp
        next
          case nochildren: False
          with step b cur gc None False cur2 have r: "resolve_loop B d ty dir it2 acc = Inr res"
            by (auto split: sum.splits)
          from "1.IH"(4) [OF nx [symmetric] _ cur gc refl None False cur2 nochildren r "1.prems"(2)] b
          show ?thesis by simp
        qed
      qed
    qed
  qed
next
  case (2 B d nodes ty dir)
  from "2.prems" have "resolve_loop B d ty dir (new_ComponentCommentIterator nodes) [] = Inr res'"
    by simp
  from "2.IH" [OF this] show ?case by simp
qed

text \<open>
  The scan refines \<open>tree_markers\<close>: when it returns, it returns the parse results of
  the markers of the requested type, in document order.
\<close>

lemma pending_markers:
  "tree_markers B dir (Some (s, payload)) ns =
     (case find_candidate ns of
        None \<Rightarrow> []
      | Some (e, rest) \<Rightarrow> (s, payload, Some e) # tree_markers B dir None rest)"
  by (induction ns) (auto split: option.splits)

lemma node_markers_children: "node_markers B n = tree_markers B False None (childNodes_of n)"
  by (cases n) simp_all

lemma decode_parameter_decoded: "decode_parameter B v = Inr pd \<Longrightarrow> pd = decoded B v"
  by (auto simp: decode_parameter_def decoded_def split: option.splits if_splits)

lemma create_for_type_success:
  assumes "create_for_type B ty payload n it = Inr (cc, it')"
  shows "\<exists>end'. find_end B (get_prop payload ''prerenderId'') it = Inr (end', it')
           \<and> (truthy_opt (get_prop payload ''prerenderId'') \<longrightarrow> end' \<noteq> None)
           \<and> cc = (if has_type ty (n, payload, end') then Some (comment_of B ty (n, payload, end'))
                    else None)"
proof (cases ty)
  case server
  with assms show ?thesis
    by (auto simp: create_for_type_def createServerComponentComment_def Let_def has_type_def
             split: sum.splits prod.splits if_splits option.splits)
next
  case webassembly
  with assms show ?thesis
    by (auto simp: create_for_type_def createWebAssemblyComponentComment_def Let_def has_type_def
             dest!: decode_parameter_decoded
             split: sum.splits prod.splits if_splits option.splits)
qed


lemma end_candidate_comment: "end_candidate n = Some json \<Longrightarrow> is_comment n"
  by (auto simp: end_candidate_def split: if_splits)

lemma comment_no_children: "is_comment c \<Longrightarrow> \<not> hasChildNodes c"
  by (cases c) (simp_all add: hasChildNodes_def)

lemma candidate_position:
  assumes "find_candidate (drop (Suc i) L) = Some (e, rest)"
  shows "Suc i < length L - length rest" and "length L - length rest \<le> length L"
    and "drop (length L - length rest) L = rest" and "L ! (length L - length rest - 1) = e"
    and "is_comment e"
proof -
  from find_candidate_Some [OF assms] obtain k where
    k: "k < length (drop (Suc i) L)" "drop (Suc i) L ! k = e"
       "rest = drop (Suc k) (drop (Suc i) L)" "end_candidate e \<noteq> None" by blast
  from k(1) have lt: "Suc i + k < length L" by simp
  from k(3) lt have len: "length L - length rest = Suc (Suc i + k)" by simp
  show "Suc i < length L - length rest" using len by simp
  show "length L - length rest \<le> length L" by simp
  show "drop (length L - length rest) L = rest" using len k(3) by (simp add: add.commute)
  show "L ! (length L - length rest - 1) = e" using len k(2) lt by simp
  from k(4) show "is_comment e" by (auto dest: end_candidate_comment)
qed

lemma getComponentEndComment_candidate:
  assumes "getComponentEndComment B p (iterator_at L (int i)) = Inr (Some e, it')"
  shows "\<exists>rest. find_candidate (drop (Suc i) L) = Some (e, rest)
           \<and> it' = iterator_at L (int (length L - length rest) - 1)"
proof -
  have idx: "int (Suc i) - 1 = int i" by simp
  note eq = getComponentEndComment_eq [of B p L "Suc i", unfolded idx]
  show ?thesis
  proof (cases "find_candidate (drop (Suc i) L)")
    case None
    with assms eq show ?thesis by (simp only: option.case) simp
  next
    case (Some er)
    obtain e0 rest where er: "er = (e0, rest)" by (cases er)
    have eq2: "getComponentEndComment B p (iterator_at L (int i)) =
        (case validateEndComponentPayload B (the (end_candidate e0)) p of
           Inl x \<Rightarrow> Inl x
         | Inr u \<Rightarrow> Inr (Some e0, iterator_at L (int (length L - length rest) - 1)))"
      by (simp only: eq Some er option.case prod.case)
    show ?thesis
    proof (cases "validateEndComponentPayload B (the (end_candidate e0)) p")
      case (Inl x)
      with assms eq2 show ?thesis by (simp only: sum.case) simp
    next
      case (Inr u)
      with assms eq2 have "Inr (Some e0, iterator_at L (int (length L - length rest) - 1))
                               = (Inr (Some e, it') :: error + node option \<times> ComponentCommentIterator)"
        by (simp only: sum.case)
      then have ee: "e0 = e" and it: "it' = iterator_at L (int (length L - length rest) - 1)"
        by (simp_all only: sum.inject prod.inject option.inject)
      have "find_candidate (drop (Suc i) L) = Some (e, rest)"
        using Some er ee by (simp only:)
      with it show ?thesis by (intro exI [of _ rest] conjI)
    qed
  qed
qed

lemma find_end_at:
  assumes "find_end B pr (iterator_at L (int i)) = Inr (end', it')"
    and "truthy_opt pr \<longrightarrow> end' \<noteq> None"
  shows "if truthy_opt pr
         then \<exists>e rest. find_candidate (drop (Suc i) L) = Some (e, rest) \<and> end' = Some e
                  \<and> it' = iterator_at L (int (length L - length rest) - 1)
         else end' = None \<and> it' = iterator_at L (int i)"
proof (cases "truthy_opt pr")
  case False
  with assms(1) show ?thesis by (cases pr) (auto simp: find_end_def)
next
  case True
  then obtain p where p: "pr = Some p" "truthy p" by (cases pr) simp_all
  from True assms(2) obtain e where e: "end' = Some e" by auto
  from assms(1) p e have "getComponentEndComment B p (iterator_at L (int i)) = Inr (Some e, it')"
    by (simp add: find_end_def)
  from getComponentEndComment_candidate [OF this] True e show ?thesis by auto
qed

lemma resolve_loop_not_marker:
  assumes "i < length L" and "end_candidate (L ! i) = None"
  shows "resolve_loop B d ty dir (iterator_at L (int i - 1)) acc =
     (if dir \<or> \<not> hasChildNodes (L ! i) then resolve_loop B d ty dir (iterator_at L (int i)) acc
      else (case resolveComponentComments B (is_document (L ! i)) (childNodes_of (L ! i)) ty False of
              Inl e \<Rightarrow> Inl e
            | Inr childResults \<Rightarrow>
                resolve_loop B d ty dir (iterator_at L (int i)) (acc @ childResults)))"
proof -
  from assms(1) have cur: "currentElement (iterator_at L (int i)) = Some (L ! i)"
    by (simp add: currentElement_at)
  show ?thesis
    by (subst resolve_loop_at [OF assms(1)])
       (simp add: getComponentComment_not_marker [OF cur assms(2)] cur
             del: resolveComponentComments.simps)
qed

lemma resolve_loop_after_marker:
  assumes "i < length L" and "getComponentComment B d (iterator_at L (int i)) ty = Inr (cc, it')"
    and "currentElement it' = Some c" and "is_comment c"
  shows "resolve_loop B d ty dir (iterator_at L (int i - 1)) acc =
           resolve_loop B d ty dir it' (acc @ (case cc of None \<Rightarrow> [] | Some x \<Rightarrow> [x]))"
  using assms(2-4) comment_no_children [OF assms(4)]
  by (subst resolve_loop_at [OF assms(1)]) (simp split: option.splits)

lemma resolve_loop_marker:
  assumes "i < length L" and "end_candidate (L ! i) = Some json"
    and "resolve_loop B d ty dir (iterator_at L (int i - 1)) acc = Inr res"
  shows "\<exists>payload end' j.
           JSON_parse B json = Some payload
           \<and> (if truthy_opt (get_prop payload ''prerenderId'')
               then \<exists>e rest. find_candidate (drop (Suc i) L) = Some (e, rest) \<and> end' = Some e
                        \<and> j = length L - length rest
               else end' = None \<and> j = Suc i)
           \<and> resolve_loop B d ty dir (iterator_at L (int j - 1))
                (acc @ (if has_type ty (L ! i, payload, end')
                        then [comment_of B ty (L ! i, payload, end')] else [])) = Inr res"
proof -
  from assms(1) have cur: "currentElement (iterator_at L (int i)) = Some (L ! i)"
    by (simp add: currentElement_at)
  note gm = getComponentComment_marker [OF cur assms(2), of B d ty]
  from assms(3) obtain r where gc: "getComponentComment B d (iterator_at L (int i)) ty = Inr r"
    by (subst (asm) resolve_loop_at [OF assms(1)]) (auto split: sum.splits)
  obtain cc it' where r: "r = (cc, it')" by (cases r)
  from gc gm r obtain payload where
    parse: "parseCommentPayload B json = Inr payload"
    and cr: "create_for_type B ty payload (L ! i) (iterator_at L (int i)) = Inr (cc, it')"
    by (auto split: if_splits sum.splits)
  from parse have jp: "JSON_parse B json = Some payload"
    by (auto simp: parseCommentPayload_def Let_def split: option.splits if_splits)
  from create_for_type_success [OF cr] obtain end' where
    fe: "find_end B (get_prop payload ''prerenderId'') (iterator_at L (int i)) = Inr (end', it')"
    and tr: "truthy_opt (get_prop payload ''prerenderId'') \<longrightarrow> end' \<noteq> None"
    and cc: "cc = (if has_type ty (L ! i, payload, end')
                   then Some (comment_of B ty (L ! i, payload, end')) else None)"
    by blast
  note at = find_end_at [OF fe tr]
  have acc: "(acc @ (case cc of None \<Rightarrow> [] | Some x \<Rightarrow> [x])) =
             (acc @ (if has_type ty (L ! i, payload, end')
                     then [comment_of B ty (L ! i, payload, end')] else []))"
    by (simp add: cc)
  show ?thesis
  proof (cases "truthy_opt (get_prop payload ''prerenderId'')")
    case False
    with at have e: "end' = None" and it: "it' = iterator_at L (int i)" by simp_all
    have "resolve_loop B d ty dir (iterator_at L (int i - 1)) acc =
           resolve_loop B d ty dir it' (acc @ (case cc of None \<Rightarrow> [] | Some x \<Rightarrow> [x]))"
      using gc [unfolded r] cur end_candidate_comment [OF assms(2)]
      by (intro resolve_loop_after_marker [OF assms(1)]) (simp_all add: it)
    with assms(3) acc it have
      "resolve_loop B d ty dir (iterator_at L (int (Suc i) - 1))
         (acc @ (if has_type ty (L ! i, payload, end')
                 then [comment_of B ty (L ! i, payload, end')] else [])) = Inr res"
      by simp
    with jp False e show ?thesis
      by (intro exI [of _ payload] exI [of _ end'] exI [of _ "Suc i"]) simp
  next
    case True
    with at obtain e rest where fc: "find_candidate (drop (Suc i) L) = Some (e, rest)"
      and e: "end' = Some e" and it: "it' = iterator_at L (int (length L - length rest) - 1)"
      by auto
    note pos = candidate_position [OF fc]
    define j where "j = length L - length rest"
    from pos have j: "0 < j" "j - 1 < length L" "L ! (j - 1) = e" "is_comment e"
      by (simp_all add: j_def)
    have "int (length L - length rest) - 1 = int (j - 1)"
      using j(1) unfolding j_def by linarith
    with it have it2: "it' = iterator_at L (int (j - 1))"
      by (simp only:)
    then have cur2: "currentElement it' = Some e"
      using j(2,3) by (simp add: currentElement_at)
    have "resolve_loop B d ty dir (iterator_at L (int i - 1)) acc =
           resolve_loop B d ty dir it' (acc @ (case cc of None \<Rightarrow> [] | Some x \<Rightarrow> [x]))"
      using gc [unfolded r] cur2 j(4)
      by (intro resolve_loop_after_marker [OF assms(1)])
    with assms(3) acc it have
      "resolve_loop B d ty dir (iterator_at L (int (length L - length rest) - 1))
         (acc @ (if has_type ty (L ! i, payload, end')
                 then [comment_of B ty (L ! i, payload, end')] else [])) = Inr res"
      by simp
    with jp True e fc show ?thesis
      by (intro exI [of _ payload] exI [of _ end'] exI [of _ "length L - length rest"]) simp
  qed
qed

lemma resolve_loop_markers:
  "i \<le> length L \<Longrightarrow> resolve_loop B d ty dir (iterator_at L (int i - 1)) acc = Inr res \<Longrightarrow>
     res = acc @ map (comment_of B ty) (filter (has_type ty) (tree_markers B dir None (drop i L)))"
proof (induction "size_list size L" arbitrary: L d dir i acc res rule: less_induct)
  case (less L)
  note outer = less.hyps
  have kids: "ch = map (comment_of B ty) (filter (has_type ty) (node_markers B n))"
    if "resolveComponentComments B d' (childNodes_of n) ty False = Inr ch" and "n \<in> set L"
    for d' n ch
  proof -
    from that(2) have smaller: "size_list size (childNodes_of n) < size_list size L"
      by (rule size_childNodes_of)
    from that(1) have "resolve_loop B d' ty False (iterator_at (childNodes_of n) (int 0 - 1)) [] = Inr ch"
      by (simp add: new_iterator_at)
    from outer [OF smaller _ this] show ?thesis
      by (simp add: node_markers_children)
  qed
  from less.prems show ?case
  proof (induction "length L - i" arbitrary: i acc rule: less_induct)
    case (less i)
    note IH = less.hyps
    show ?case
    proof (cases "i < length L")
      case False
      with less.prems(1) have "i = length L" by simp
      with less.prems(2) resolve_loop_end [of L i B d ty dir acc] show ?thesis by simp
    next
      case True
      then have dr: "drop i L = L ! i # drop (Suc i) L"
        by (simp add: Cons_nth_drop_Suc)
      from True have mem: "L ! i \<in> set L" by simp
      have idx: "int (Suc i) - 1 = int i" by simp
      show ?thesis
      proof (cases "end_candidate (L ! i)")
        case None
        note eq = resolve_loop_not_marker [OF True None, of B d ty dir acc]
        have spec: "tree_markers B dir None (drop i L) =
                    (if dir then [] else node_markers B (L ! i)) @ tree_markers B dir None (drop (Suc i) L)"
          by (simp add: dr None)
        show ?thesis
        proof (cases "dir \<or> \<not> hasChildNodes (L ! i)")
          case skip: True
          with eq less.prems(2) have "resolve_loop B d ty dir (iterator_at L (int (Suc i) - 1)) acc = Inr res"
            by (simp only: idx if_True)
          from IH [OF _ _ this] True have
            "res = acc @ map (comment_of B ty) (filter (has_type ty) (tree_markers B dir None (drop (Suc i) L)))"
            by simp
          moreover have "(if dir then [] else node_markers B (L ! i)) = []"
            using skip by (auto simp: node_markers_children hasChildNodes_def)
          ultimately show ?thesis by (simp only: spec append_Nil)
        next
          case descend: False
          with eq less.prems(2) obtain ch where
            ch: "resolveComponentComments B (is_document (L ! i)) (childNodes_of (L ! i)) ty False = Inr ch"
            and r: "resolve_loop B d ty dir (iterator_at L (int (Suc i) - 1)) (acc @ ch) = Inr res"
            by (simp only: idx if_False) (auto split: sum.splits simp del: resolveComponentComments.simps)
          from IH [OF _ _ r] True have
            "res = (acc @ ch) @ map (comment_of B ty) (filter (has_type ty) (tree_markers B dir None (drop (Suc i) L)))"
            by simp
          with kids [OF ch mem] descend spec show ?thesis by simp
        qed
      next
        case (Some json)
        from resolve_loop_marker [OF True Some less.prems(2)] obtain payload end' j where
          jp: "JSON_parse B json = Some payload"
          and pos: "if truthy_opt (get_prop payload ''prerenderId'')
                    then \<exists>e rest. find_candidate (drop (Suc i) L) = Some (e, rest) \<and> end' = Some e
                           \<and> j = length L - length rest
                    else end' = None \<and> j = Suc i"
          and r: "resolve_loop B d ty dir (iterator_at L (int j - 1))
                    (acc @ (if has_type ty (L ! i, payload, end')
                            then [comment_of B ty (L ! i, payload, end')] else [])) = Inr res"
          by blast
        have j: "i < j \<and> j \<le> length L
                 \<and> tree_markers B dir None (drop i L) =
                     (L ! i, payload, end') # tree_markers B dir None (drop j L)"
        proof (cases "truthy_opt (get_prop payload ''prerenderId'')")
          case False
          with pos have "end' = None" "j = Suc i" by simp_all
          with True False jp Some show ?thesis by (simp add: dr)
        next
          case tr: True
          with pos obtain e rest where fc: "find_candidate (drop (Suc i) L) = Some (e, rest)"
            and e: "end' = Some e" and jj: "j = length L - length rest" by auto
          note cp = candidate_position [OF fc]
          from cp(1,2) jj have "i < j" "j \<le> length L" by simp_all
          moreover have "tree_markers B dir None (drop i L) =
                     (L ! i, payload, end') # tree_markers B dir None (drop j L)"
            using tr jp Some fc e cp(3) jj by (simp add: dr pending_markers)
          ultimately show ?thesis by simp
        qed
        from j True have less': "length L - j < length L - i" by arith
        from j have le: "j \<le> length L" by simp
        from IH [OF less' le r] show ?thesis
          using j by simp
      qed
    qed
  qed
qed

lemma resolveComponentComments_markers:
  assumes "resolveComponentComments B d L ty dir = Inr res"
  shows "res = map (comment_of B ty) (filter (has_type ty) (tree_markers B dir None L))"
proof -
  from assms have "resolve_loop B d ty dir (iterator_at L (int 0 - 1)) [] = Inr res"
    by (simp add: new_iterator_at)
  from resolve_loop_markers [OF _ this] show ?thesis by simp
qed

text \<open>
  The sort with a comparator that subtracts two keys is the stable sort
  \<open>sort_key\<close> of the library; the descriptors built from the parse results are
  those of the markers.
\<close>

lemma insert_sorted_insort_key:
  "insert_sorted (\<lambda>a b. key a - key b) x ys = insort_key key x ys"
  by (induction ys) simp_all

lemma Array_sort_sort_key: "Array_sort (\<lambda>a b. key a - key b) xs = sort_key key xs"
  unfolding Array_sort_def sort_key_def
  by (induction xs) (simp_all add: insert_sorted_insort_key)

lemma insort_key_map: "insort_key f (g x) (map g ys) = map g (insort_key (\<lambda>y. f (g y)) x ys)"
  by (induction ys) simp_all

lemma sort_key_map: "sort_key f (map g xs) = map g (sort_key (\<lambda>y. f (g y)) xs)"
  unfolding sort_key_def by (induction xs) (simp_all add: insort_key_map)

lemma server_descriptors_of_comments:
  "map (\<lambda>c. new_ServerComponentDescriptor (start_sc c) (end_sc c) (sequence_sc c) (descriptor_sc c))
       (List.map_filter as_ServerComponentComment (map (comment_of B server) ms)) =
   map server_descriptor_of ms"
proof (induction ms)
  case Nil
  show ?case by (simp add: map_filter_simps)
next
  case (Cons m ms)
  obtain s p e where "m = (s, p, e)" by (cases m)
  with Cons show ?case
    by (simp add: map_filter_simps new_ServerComponentDescriptor_def server_descriptor_of_def)
qed

lemma webassembly_descriptors_of_comments:
  "construct_entries g (List.map_filter as_WebAssemblyComponentComment
                          (map (comment_of B webassembly) ms)) =
   (map (\<lambda>(i, m). webassembly_descriptor_of B i m) (number_from g ms), g + int (length ms))"
proof (induction ms arbitrary: g)
  case Nil
  show ?case by (simp add: map_filter_simps)
next
  case (Cons m ms)
  obtain s p e where "m = (s, p, e)" by (cases m)
  with Cons [of "g + 1"] show ?case
    by (simp add: map_filter_simps new_WebAssemblyComponentDescriptor_def
                  webassembly_descriptor_of_def)
qed

lemma number_from_fst: "map fst (number_from g xs) = [g..g + int (length xs) - 1]"
proof (induction xs arbitrary: g)
  case Nil
  show ?case by simp
next
  case (Cons x xs)
  have "[g..g + int (length (x # xs)) - 1] = g # [g + 1..g + 1 + int (length xs) - 1]"
    by (subst upto_rec1) (simp_all add: algebra_simps)
  with Cons [of "g + 1"] show ?case by simp
qed

lemma webassembly_ids:
  "map id_wd (map (\<lambda>(i, m). webassembly_descriptor_of B i m) (number_from g ms)) =
   [g..g + int (length ms) - 1]"
proof -
  have "map id_wd (map (\<lambda>(i, m). webassembly_descriptor_of B i m) (number_from g ms)) =
        map fst (number_from g ms)"
    by (auto simp: webassembly_descriptor_of_def split: prod.splits)
  then show ?thesis by (simp only: number_from_fst)
qed

lemma length_number_from: "length (number_from g xs) = length xs"
  by (induction xs arbitrary: g) simp_all

lemma discoverServerComponents_markers:
  assumes "discoverServerComponents B d L dir = Inr ss"
  shows "ss = sort_key sequence_sd
                (map server_descriptor_of (filter (has_type server) (tree_markers B dir None L)))"
proof -
  from assms obtain resolved where
    r: "resolveComponentComments B d L server dir = Inr resolved"
    and ss: "ss = Array_sort (\<lambda>a b. sequence_sd a - sequence_sd b)
               (map (\<lambda>c. new_ServerComponentDescriptor (start_sc c) (end_sc c) (sequence_sc c)
                            (descriptor_sc c))
                    (List.map_filter as_ServerComponentComment resolved))"
    by (auto simp: discoverServerComponents_def Let_def split: sum.splits
             simp del: resolveComponentComments.simps)
  from resolveComponentComments_markers [OF r] ss show ?thesis
    by (simp only: server_descriptors_of_comments Array_sort_sort_key)
qed

lemma discoverWebAssemblyComponents_markers:
  assumes "discoverWebAssemblyComponents B g d L dir = Inr (ws, g')"
  shows "ws = map (\<lambda>(i, m). webassembly_descriptor_of B i m)
                (number_from g (filter (has_type webassembly) (tree_markers B dir None L)))"
    and "g' = g + int (length (filter (has_type webassembly) (tree_markers B dir None L)))"
proof -
  let ?ms = "filter (has_type webassembly) (tree_markers B dir None L)"
  let ?es = "map (\<lambda>(i, m). webassembly_descriptor_of B i m) (number_from g ?ms)"
  from assms obtain resolved es where
    r: "resolveComponentComments B d L webassembly dir = Inr resolved"
    and es: "construct_entries g (List.map_filter as_WebAssemblyComponentComment resolved) = (es, g')"
    and ws: "ws = Array_sort (\<lambda>a b. id_wd a - id_wd b) es"
    by (auto simp: discoverWebAssemblyComponents_def Let_def split: sum.splits prod.splits
             simp del: resolveComponentComments.simps)
  from es resolveComponentComments_markers [OF r]
  have e: "es = ?es" and g: "g' = g + int (length ?ms)"
    by (simp_all only: webassembly_descriptors_of_comments prod.inject)
  have "sorted (map id_wd ?es)"
    by (simp only: webassembly_ids sorted_upto)
  then have "sort_key id_wd ?es = ?es" by (rule sort_key_id_if_sorted)
  with ws e show "ws = ?es" by (simp only: Array_sort_sort_key)
  from g show "g' = g + int (length ?ms)" .
qed

text \<open>
  C5. When discovery on a subtree succeeds, the descriptors it returns are those
  of the markers of the requested type that the subtree holds (\<open>markers_of_type\<close>,
  which lists them in document order), sorted stably in ascending order of the
  ordering key, whatever the order of the markers in the DOM. The key of a server
  descriptor is the integer \<open>sequence\<close> of its marker's payload, and the counter is
  left as it was. The key of a local-execution descriptor is its \<open>id\<close>, taken from
  the counter in creation order, which is the document order of the markers: the
  ids are \<open>globalId\<close>, \<open>globalId + 1\<close> and so on, the descriptors are in document
  order, and the counter has advanced by their number.
\<close>

theorem C5_discovery_sorted_by_key:
  assumes "discoverComponents B globalId root_node ty directChildrenOnly = Inr (ds, globalId')"
  shows "ds = sort_key getUniqueId
                (marker_descriptors B globalId ty (markers_of_type B directChildrenOnly root_node ty))
         \<and> sorted (map getUniqueId ds)
         \<and> (\<forall>d\<in>set ds. type_of d = ty)
         \<and> (ty = server \<longrightarrow> globalId' = globalId)
         \<and> (ty = webassembly \<longrightarrow>
               ds = marker_descriptors B globalId ty (markers_of_type B directChildrenOnly root_node ty)
               \<and> map getUniqueId ds = [globalId..globalId + int (length ds) - 1]
               \<and> globalId' = globalId + int (length ds))"
proof -
  let ?ms = "markers_of_type B directChildrenOnly root_node ty"
  have main: "ds = sort_key getUniqueId (marker_descriptors B globalId ty ?ms)
              \<and> (ty = server \<longrightarrow> globalId' = globalId)
              \<and> (ty = webassembly \<longrightarrow>
                    ds = marker_descriptors B globalId ty ?ms
                    \<and> map getUniqueId ds = [globalId..globalId + int (length ds) - 1]
                    \<and> globalId' = globalId + int (length ds))"
  proof (cases "hasChildNodes root_node")
    case False
    with assms have "ds = []" "globalId' = globalId" by (simp_all add: discoverComponents_def)
    moreover from False have "?ms = []"
      by (simp add: hasChildNodes_def markers_of_type_def)
    ultimately show ?thesis by (cases ty) (simp_all add: marker_descriptors_def)
  next
    case True
    show ?thesis
    proof (cases ty)
      case server
      with True assms obtain ss where
        d: "discoverServerComponents B (is_document root_node) (childNodes_of root_node)
              directChildrenOnly = Inr ss"
        and ds: "ds = map Server ss" and g: "globalId' = globalId"
        by (auto simp: discoverComponents_def discoverComponentsFromNodeList_def split: sum.splits)
      have sk: "sort_key getUniqueId (map Server xs) = map Server (sort_key sequence_sd xs)" for xs
        by (simp add: sort_key_map)
      have md: "marker_descriptors B globalId ty ?ms =
                map Server (map server_descriptor_of
                  (filter (has_type server)
                     (tree_markers B directChildrenOnly None (childNodes_of root_node))))"
        using server by (simp add: marker_descriptors_def markers_of_type_def)
      have "ds = sort_key getUniqueId (marker_descriptors B globalId ty ?ms)"
        using discoverServerComponents_markers [OF d] ds by (simp only: md sk)
      with g server show ?thesis by simp
    next
      case webassembly
      with True assms obtain ws where
        d: "discoverWebAssemblyComponents B globalId (is_document root_node) (childNodes_of root_node)
              directChildrenOnly = Inr (ws, globalId')"
        and ds: "ds = map WebAssembly ws"
        by (auto simp: discoverComponents_def discoverComponentsFromNodeList_def split: sum.splits)
      note m = discoverWebAssemblyComponents_markers [OF d]
      let ?wm = "filter (has_type webassembly) (tree_markers B directChildrenOnly None (childNodes_of root_node))"
      have eq: "ds = marker_descriptors B globalId ty ?ms"
        using m(1) ds webassembly
        by (simp add: marker_descriptors_def markers_of_type_def comp_def split_def)
      have len: "length ds = length ?wm"
        using m(1) ds by (simp add: length_number_from)
      have ids: "map getUniqueId ds = [globalId..globalId + int (length ds) - 1]"
      proof -
        have "map getUniqueId ds = map id_wd ws" using ds by (simp add: comp_def)
        also have "\<dots> = [globalId..globalId + int (length ?wm) - 1]"
          unfolding m(1) by (rule webassembly_ids)
        finally show ?thesis by (simp only: len)
      qed
      have "sorted (map getUniqueId ds)" by (simp only: ids sorted_upto)
      then have "sort_key getUniqueId ds = ds" by (rule sort_key_id_if_sorted)
      with eq ids m(2) len webassembly show ?thesis by simp
    qed
  qed
  then have "ds = sort_key getUniqueId (marker_descriptors B globalId ty ?ms)" by blast
  then have "sorted (map getUniqueId ds)" by (simp only: sorted_sort_key)
  moreover have "\<forall>d\<in>set ds. type_of d = ty"
  proof -
    have "\<forall>d\<in>set (marker_descriptors B globalId ty ?ms). type_of d = ty"
      by (cases ty) (auto simp: marker_descriptors_def)
    with main show ?thesis by (metis set_sort)
  qed
  ultimately show ?thesis using main by blast
qed

theorem C5_discovery_sorted_by_key_witness:
  \<open>discoverComponents sample_builtins 1
     (Element [Comment ''Blazor:{"type":"server","sequence":1,"descriptor":"B"}'',
               Element [Text ''x'', Comment ''Blazor:{"type":"server","sequence":0,"descriptor":"A"}''],
               Comment ''Blazor:{"type":"server","sequence":2,"descriptor":"C","prerenderId":"X"}'',
               Text ''hello'',
               Comment ''Blazor:{"prerenderId":"X"}''])
     server False =
   Inr ([Server \<lparr>start_sd = Comment ''Blazor:{"type":"server","sequence":0,"descriptor":"A"}'',
                 end_sd = None, sequence_sd = 0, descriptor_sd = JString ''A''\<rparr>,
         Server \<lparr>start_sd = Comment ''Blazor:{"type":"server","sequence":1,"descriptor":"B"}'',
                 end_sd = None, sequence_sd = 1, descriptor_sd = JString ''B''\<rparr>,
         Server \<lparr>start_sd =
                   Comment ''Blazor:{"type":"server","sequence":2,"descriptor":"C","prerenderId":"X"}'',
                 end_sd = Some (Comment ''Blazor:{"prerenderId":"X"}''),
                 sequence_sd = 2, descriptor_sd = JString ''C''\<rparr>], 1)
   \<and> map fst (markers_of_type sample_builtins False
        (Element [Comment ''Blazor:{"type":"server","sequence":1,"descriptor":"B"}'',
                  Element [Text ''x'', Comment ''Blazor:{"type":"server","sequence":0,"descriptor":"A"}''],
                  Comment ''Blazor:{"type":"server","sequence":2,"descriptor":"C","prerenderId":"X"}'',
                  Text ''hello'',
                  Comment ''Blazor:{"prerenderId":"X"}''])
        server) =
       [Comment ''Blazor:{"type":"server","sequence":1,"descriptor":"B"}'',
        Comment ''Blazor:{"type":"server","sequence":0,"descriptor":"A"}'',
        Comment ''Blazor:{"type":"server","sequence":2,"descriptor":"C","prerenderId":"X"}'']
   \<and> [Server \<lparr>start_sd = Comment ''Blazor:{"type":"server","sequence":0,"descriptor":"A"}'',
                 end_sd = None, sequence_sd = 0, descriptor_sd = JString ''A''\<rparr>,
        Server \<lparr>start_sd = Comment ''Blazor:{"type":"server","sequence":1,"descriptor":"B"}'',
                 end_sd = None, sequence_sd = 1, descriptor_sd = JString ''B''\<rparr>,
        Server \<lparr>start_sd =
                   Comment ''Blazor:{"type":"server","sequence":2,"descriptor":"C","prerenderId":"X"}'',
                 end_sd = Some (Comment ''Blazor:{"prerenderId":"X"}''),
                 sequence_sd = 2, descriptor_sd = JString ''C''\<rparr>] =
       sort_key getUniqueId
         (marker_descriptors sample_builtins 1 server
            (markers_of_type sample_builtins False
               (Element [Comment ''Blazor:{"type":"server","sequence":1,"descriptor":"B"}'',
                         Element [Text ''x'',
                                  Comment ''Blazor:{"type":"server","sequence":0,"descriptor":"A"}''],
                         Comment ''Blazor:{"type":"server","sequence":2,"descriptor":"C","prerenderId":"X"}'',
                         Text ''hello'',
                         Comment ''Blazor:{"prerenderId":"X"}''])
               server))
   \<and> discoverComponents sample_builtins 5
     (Element [Comment ''Blazor:{"type":"webassembly","assembly":"App","typeName":"Counter","prerenderId":"X"}'',
               Text ''hello'',
               Comment ''Blazor:{"prerenderId":"X"}'',
               Element [Comment ''Blazor:{"type":"webassembly","assembly":"App","typeName":"Clock","parameterDefinitions":"QQ==","parameterValues":""}'']])
     webassembly False =
   Inr ([WebAssembly
          \<lparr>typeName_wd = JString ''Counter'', assembly_wd = JString ''App'',
           parameterDefinitions_wd = None, parameterValues_wd = None, id_wd = 5,
           start_wd = Comment ''Blazor:{"type":"webassembly","assembly":"App","typeName":"Counter","prerenderId":"X"}'',
           end_wd = None\<rparr>,
         WebAssembly
          \<lparr>typeName_wd = JString ''Clock'', assembly_wd = JString ''App'',
           parameterDefinitions_wd = Some (JString ''A''), parameterValues_wd = Some (JString []),
           id_wd = 6,
           start_wd = Comment ''Blazor:{"type":"webassembly","assembly":"App","typeName":"Clock","parameterDefinitions":"QQ==","parameterValues":""}'',
           end_wd = None\<rparr>], 7)
   \<and> [WebAssembly
          \<lparr>typeName_wd = JString ''Counter'', assembly_wd = JString ''App'',
           parameterDefinitions_wd = None, parameterValues_wd = None, id_wd = 5,
           start_wd = Comment ''Blazor:{"type":"webassembly","assembly":"App","typeName":"Counter","prerenderId":"X"}'',
           end_wd = None\<rparr>,
        WebAssembly
          \<lparr>typeName_wd = JString ''Clock'', assembly_wd = JString ''App'',
           parameterDefinitions_wd = Some (JString ''A''), parameterValues_wd = Some (JString []),
           id_wd = 6,
           start_wd = Comment ''Blazor:{"type":"webassembly","assembly":"App","typeName":"Clock","parameterDefinitions":"QQ==","parameterValues":""}'',
           end_wd = None\<rparr>] =
       marker_descriptors sample_builtins 5 webassembly
         (markers_of_type sample_builtins False
            (Element [Comment ''Blazor:{"type":"webassembly","assembly":"App","typeName":"Counter","prerenderId":"X"}'',
                      Text ''hello'',
                      Comment ''Blazor:{"prerenderId":"X"}'',
                      Element [Comment ''Blazor:{"type":"webassembly","assembly":"App","typeName":"Clock","parameterDefinitions":"QQ==","parameterValues":""}'']])
            webassembly)\<close>
proof -
  let ?t1 = \<open>Element [Comment ''Blazor:{"type":"server","sequence":1,"descriptor":"B"}'',
               Element [Text ''x'', Comment ''Blazor:{"type":"server","sequence":0,"descriptor":"A"}''],
               Comment ''Blazor:{"type":"server","sequence":2,"descriptor":"C","prerenderId":"X"}'',
               Text ''hello'',
               Comment ''Blazor:{"prerenderId":"X"}'']\<close>
  let ?t2 = \<open>Element [Comment ''Blazor:{"type":"webassembly","assembly":"App","typeName":"Counter","prerenderId":"X"}'',
               Text ''hello'',
               Comment ''Blazor:{"prerenderId":"X"}'',
               Element [Comment ''Blazor:{"type":"webassembly","assembly":"App","typeName":"Clock","parameterDefinitions":"QQ==","parameterValues":""}'']]\<close>
  have run1: \<open>discoverComponents sample_builtins 1 ?t1 server False =
   Inr ([Server \<lparr>start_sd = Comment ''Blazor:{"type":"server","sequence":0,"descriptor":"A"}'',
                 end_sd = None, sequence_sd = 0, descriptor_sd = JString ''A''\<rparr>,
         Server \<lparr>start_sd = Comment ''Blazor:{"type":"server","sequence":1,"descriptor":"B"}'',
                 end_sd = None, sequence_sd = 1, descriptor_sd = JString ''B''\<rparr>,
         Server \<lparr>start_sd =
                   Comment ''Blazor:{"type":"server","sequence":2,"descriptor":"C","prerenderId":"X"}'',
                 end_sd = Some (Comment ''Blazor:{"prerenderId":"X"}''),
                 sequence_sd = 2, descriptor_sd = JString ''C''\<rparr>], 1)\<close>
    by code_simp
  have order1: \<open>map fst (markers_of_type sample_builtins False ?t1 server) =
       [Comment ''Blazor:{"type":"server","sequence":1,"descriptor":"B"}'',
        Comment ''Blazor:{"type":"server","sequence":0,"descriptor":"A"}'',
        Comment ''Blazor:{"type":"server","sequence":2,"descriptor":"C","prerenderId":"X"}'']\<close>
    by code_simp
  have run2: \<open>discoverComponents sample_builtins 5 ?t2 webassembly False =
   Inr ([WebAssembly
          \<lparr>typeName_wd = JString ''Counter'', assembly_wd = JString ''App'',
           parameterDefinitions_wd = None, parameterValues_wd = None, id_wd = 5,
           start_wd = Comment ''Blazor:{"type":"webassembly","assembly":"App","typeName":"Counter","prerenderId":"X"}'',
           end_wd = None\<rparr>,
         WebAssembly
          \<lparr>typeName_wd = JString ''Clock'', assembly_wd = JString ''App'',
           parameterDefinitions_wd = Some (JString ''A''), parameterValues_wd = Some (JString []),
           id_wd = 6,
           start_wd = Comment ''Blazor:{"type":"webassembly","assembly":"App","typeName":"Clock","parameterDefinitions":"QQ==","parameterValues":""}'',
           end_wd = None\<rparr>], 7)\<close>
    by code_simp
  note sorted1 = C5_discovery_sorted_by_key [OF run1, THEN conjunct1]
  note created2 = C5_discovery_sorted_by_key [OF run2, THEN conjunct2, THEN conjunct2, THEN conjunct2,
                    THEN conjunct2, rule_format, OF refl, THEN conjunct1]
  show ?thesis
    by (rule conjI [OF run1 conjI [OF order1 conjI [OF sorted1 conjI [OF run2 created2]]]])
qed

section \<open>Properties of the persisted-state search\<close>

lemma first_state_append:
  "first_state (xs @ ys) = (case first_state xs of None \<Rightarrow> first_state ys | Some v \<Rightarrow> Some v)"
  by (induction xs) (simp_all split: option.splits)

lemma first_state_index_append:
  "first_state_index (xs @ ys) =
     (if first_state xs = None then length xs + first_state_index ys else first_state_index xs)"
  by (induction xs) (simp_all split: option.splits)

lemma first_state_index_less:
  "first_state ts = Some v \<Longrightarrow> first_state_index ts < length ts"
  by (induction ts) (auto split: option.splits)

lemma state_payload_not_empty:
  "blazorStateCommentRegularExpression_exec c = Some v \<Longrightarrow> v \<noteq> []"
  by (auto simp: blazorStateCommentRegularExpression_exec_def split: option.splits if_splits)

lemma first_state_not_empty: "first_state ts = Some v \<Longrightarrow> v \<noteq> []"
  by (induction ts) (auto split: option.splits dest: state_payload_not_empty)

lemma put_back_append: "put_back n' rest = put_back n' [] @ rest"
  by (cases n') simp_all

lemma discoverPersistedState_first_match:
  "(first_state (comment_texts n) = None \<longrightarrow>
      discoverPersistedState hasParent n = (if is_comment n then Null else Undefined, Some n))
   \<and> (\<forall>v. first_state (comment_texts n) = Some v \<longrightarrow>
          fst (discoverPersistedState hasParent n) = Value v
          \<and> put_back (snd (discoverPersistedState hasParent n)) [] =
              (if is_comment n \<and> \<not> hasParent then [n]
               else remove_nth_comment_in (first_state_index (comment_texts n)) n))"
  "(first_state (comment_texts_list ns) = None \<longrightarrow> discoverPersistedState_loop ns = (Undefined, ns))
   \<and> (\<forall>v. first_state (comment_texts_list ns) = Some v \<longrightarrow>
          discoverPersistedState_loop ns =
            (Value v, remove_nth_comment (first_state_index (comment_texts_list ns)) ns))"
proof (induction hasParent n and ns rule: discoverPersistedState_discoverPersistedState_loop.induct)
  case (1 hasParent content)
  show ?case
    by (auto split: option.splits dest: state_payload_not_empty)
next
  case (2 hasParent t)
  show ?case by simp
next
  case (3 hasParent nodes)
  show ?case
  proof (cases "nodes = []")
    case True
    then show ?thesis by simp
  next
    case False
    from "3.IH" [OF False] False show ?thesis by auto
  qed
next
  case (4 hasParent nodes)
  show ?case
  proof (cases "nodes = []")
    case True
    then show ?thesis by simp
  next
    case False
    from "4.IH" [OF False] False show ?thesis by auto
  qed
next
  case 5
  show ?case by simp
next
  case (6 candidate rest)
  obtain result candidate' where c: "discoverPersistedState True candidate = (result, candidate')"
    by (cases "discoverPersistedState True candidate")
  show ?case
  proof (cases "first_state (comment_texts candidate)")
    case None
    with "6.IH"(1) c have nt: "\<not> truthy_result result" and same: "candidate' = Some candidate"
      by auto
    from "6.IH"(2) [OF c [symmetric] nt] None c nt same show ?thesis
      by (auto simp: first_state_append first_state_index_append split: option.splits)
  next
    case (Some v)
    with "6.IH"(1) c have r: "result = Value v"
      and rem: "put_back candidate' [] =
                remove_nth_comment_in (first_state_index (comment_texts candidate)) candidate"
      by simp_all
    from Some have "v \<noteq> []" by (rule first_state_not_empty)
    with r have t: "truthy_result result" by simp
    have "put_back candidate' rest =
          remove_nth_comment_in (first_state_index (comment_texts candidate)) candidate @ rest"
      by (subst put_back_append) (simp add: rem)
    with Some c r t first_state_index_less [OF Some] show ?thesis
      by (simp add: first_state_append first_state_index_append)
  qed
qed

text \<open>
  C4 (amended). \<open>discoverPersistedState\<close> is a depth-first single-match search. If
  no comment of the subtree matches the persisted-state pattern it returns
  not-found (\<open>null\<close> on a comment, \<open>undefined\<close> otherwise) and the subtree is
  unchanged. Otherwise it returns the payload of the first matching comment in
  document order, as captured from the comment text and not decoded, and exactly
  that comment node has been removed from the tree, everything else staying in
  place; only when the node given to the function is itself the matching comment
  and has no parent is nothing removed.
\<close>

theorem C4_persisted_state_first_match:
  "(first_state (comment_texts n) = None \<longrightarrow>
      discoverPersistedState hasParent n = (if is_comment n then Null else Undefined, Some n))
   \<and> (\<forall>v. first_state (comment_texts n) = Some v \<longrightarrow>
          fst (discoverPersistedState hasParent n) = Value v
          \<and> put_back (snd (discoverPersistedState hasParent n)) [] =
              (if is_comment n \<and> \<not> hasParent then [n]
               else remove_nth_comment (first_state_index (comment_texts n)) [n]))"
proof -
  have "first_state (comment_texts n) = Some v \<Longrightarrow>
          remove_nth_comment (first_state_index (comment_texts n)) [n] =
          remove_nth_comment_in (first_state_index (comment_texts n)) n" for v
    using first_state_index_less [of "comment_texts n" v] by simp
  with discoverPersistedState_first_match(1) [of n hasParent] show ?thesis
    by auto
qed

theorem C4_persisted_state_first_match_witness:
  "first_state (comment_texts (Element [Comment ''x'', Element [Text ''y'']])) = None
   \<and> discoverPersistedState True (Element [Comment ''x'', Element [Text ''y'']]) =
       (Undefined, Some (Element [Comment ''x'', Element [Text ''y'']]))
   \<and> first_state (comment_texts
        (Element [Text ''a'', Element [Comment ''x'', Comment '' Blazor-Component-State:QQ==''],
                  Comment '' Blazor-Component-State:QQ==''])) = Some ''QQ==''
   \<and> discoverPersistedState False
        (Element [Text ''a'', Element [Comment ''x'', Comment '' Blazor-Component-State:QQ==''],
                  Comment '' Blazor-Component-State:QQ=='']) =
       (Value ''QQ=='',
        Some (Element [Text ''a'', Element [Comment ''x''], Comment '' Blazor-Component-State:QQ==''])) 
   \<and> discoverPersistedState True (Comment ''Blazor-Component-State:QUI='') = (Value ''QUI='', None)
   \<and> discoverPersistedState False (Comment ''Blazor-Component-State:QUI='') =
       (Value ''QUI='', Some (Comment ''Blazor-Component-State:QUI=''))"
proof -
  let ?t = "Element [Text ''a'', Element [Comment ''x'', Comment '' Blazor-Component-State:QQ==''],
                     Comment '' Blazor-Component-State:QQ=='']"
  have a: "first_state (comment_texts (Element [Comment ''x'', Element [Text ''y'']])) = None"
    by code_simp
  have b: "first_state (comment_texts ?t) = Some ''QQ==''"
    by code_simp
  have c: "remove_nth_comment (first_state_index (comment_texts ?t)) [?t] =
           [Element [Text ''a'', Element [Comment ''x''], Comment '' Blazor-Component-State:QQ=='']]"
    by code_simp
  have d: "first_state (comment_texts (Comment ''Blazor-Component-State:QUI='')) = Some ''QUI=''"
    by code_simp
  have e: "remove_nth_comment
             (first_state_index (comment_texts (Comment ''Blazor-Component-State:QUI='')))
             [Comment ''Blazor-Component-State:QUI=''] = []"
    by code_simp
  from a C4_persisted_state_first_match [of "Element [Comment ''x'', Element [Text ''y'']]" True]
  have 1: "discoverPersistedState True (Element [Comment ''x'', Element [Text ''y'']]) =
       (Undefined, Some (Element [Comment ''x'', Element [Text ''y'']]))"
    by simp
  from b c C4_persisted_state_first_match [of ?t False]
  have 2: "discoverPersistedState False ?t =
       (Value ''QQ=='',
        Some (Element [Text ''a'', Element [Comment ''x''], Comment '' Blazor-Component-State:QQ==''])) "
    by (cases "discoverPersistedState False ?t"; cases "snd (discoverPersistedState False ?t)") simp_all
  from d e C4_persisted_state_first_match [of "Comment ''Blazor-Component-State:QUI=''" True]
  have 3: "discoverPersistedState True (Comment ''Blazor-Component-State:QUI='') = (Value ''QUI='', None)"
    by (cases "discoverPersistedState True (Comment ''Blazor-Component-State:QUI='')";
        cases "snd (discoverPersistedState True (Comment ''Blazor-Component-State:QUI=''))") simp_all
  from d C4_persisted_state_first_match [of "Comment ''Blazor-Component-State:QUI=''" False]
  have 4: "discoverPersistedState False (Comment ''Blazor-Component-State:QUI='') =
       (Value ''QUI='', Some (Comment ''Blazor-Component-State:QUI=''))"
    by (cases "discoverPersistedState False (Comment ''Blazor-Component-State:QUI='')";
        cases "snd (discoverPersistedState False (Comment ''Blazor-Component-State:QUI=''))") simp_all
  from a b 1 2 3 4 show ?thesis by simp
qed

text \<open>
  C4 as stated fails on the word decoded: for the payload \<open>QQ==\<close>, which \<open>atob\<close>
  decodes to \<open>A\<close>, the search returns \<open>QQ==\<close>.
\<close>

theorem C4_payload_not_decoded_counterexample:
  "discoverPersistedState True (Element [Comment ''Blazor-Component-State:QQ=='']) =
     (Value ''QQ=='', Some (Element []))
   \<and> atob sample_builtins (JString ''QQ=='') = Some ''A''
   \<and> fst (discoverPersistedState True (Element [Comment ''Blazor-Component-State:QQ==''])) \<noteq> Value ''A''"
  by code_simp

end
